theory Spec2Isabelle
  imports Main "HOL-Library.Sublist" "HOL-Library.AList"
begin

section \<open>Data model\<close>

text \<open>
  The scraper of \<^verbatim>\<open>tools/scraper/generic_scraper.py\<close>, the entry point of
  \<^verbatim>\<open>main.py\<close> and the sinks of \<^verbatim>\<open>tools/core/save_strategy.py\<close>.

  A Python \<^verbatim>\<open>dict\<close> is an association list in insertion order whose keys are
  distinct. A value that may be \<^verbatim>\<open>None\<close> is an \<open>option\<close>. An exception is the
  \<open>Inl\<close> of a sum; what the program does to the outside world (console, network,
  clock, file system) is the list of events it leaves, in the order of execution.
\<close>

type_synonym cell = "string option"

type_synonym ('k, 'v) dict = "('k \<times> 'v) list"

text \<open>
  A matched node of a parsed page, as far as the scraper reads it: \<open>el_attrs\<close> is what
  \<^verbatim>\<open>el.get(name)\<close> looks up (\<^verbatim>\<open>None\<close> for a missing attribute), \<open>el_text\<close> is the
  result of \<^verbatim>\<open>el.get_text(strip=True)\<close>.
\<close>

record element =
  el_attrs :: "(string, string) dict"
  el_text :: string

text \<open>
  A parsed page (the \<^verbatim>\<open>BeautifulSoup\<close> object) is what \<^verbatim>\<open>soup.select\<close> answers:
  the matched nodes of a selector, in document order.
\<close>

type_synonym doc = "string \<Rightarrow> element list"

datatype error =
    ValueError_min_empty
  | ValueError_unequal_lengths
  | ValueError_unsupported_strategy string
  | AttributeError_startswith
  | KeyError string

text \<open>
  The outcome of \<^verbatim>\<open>requests.get\<close>: an exception of the library
  (\<^verbatim>\<open>requests.RequestException\<close>: connection error, timeout, invalid URL, ...) or a
  response with its status code and its body, already parsed.
\<close>

datatype http_result = RequestException | Response int doc

text \<open>
  The network answers the \<open>n\<close>-th request of a run for a URL; the same URL may be
  answered differently at different moments.
\<close>

type_synonym network = "nat \<Rightarrow> string \<Rightarrow> http_result"

datatype file_format = Csv | Json | Xml

datatype event =
    PrintRequesting string
  | HttpGet string "(string, string) dict"
  | Sleep nat
  | PrintRequestFailed string
  | PrintTruncationWarning "int option"
  | MakeDirs string
  | WriteFile file_format string "(string, cell list) dict"
  | PrintSaved file_format string
  | PrintScrapingListing
  | PrintEnriching
  | PrintExtracted nat

record scraper =
  base_url :: string
  start_page :: int
  end_page :: int
  page_param :: string
  link_base :: string
  pagination_enabled :: bool
  headers :: "(string, string) dict"

section \<open>Strings\<close>

text \<open>\<^verbatim>\<open>s.rstrip('/')\<close>: every trailing slash is removed.\<close>

definition rstrip_slash :: "string \<Rightarrow> string" where
  "rstrip_slash s = rev (dropWhile (\<lambda>c. c = CHR ''/'') (rev s))"

text \<open>\<^verbatim>\<open>s.startswith(p)\<close>.\<close>

definition startswith :: "string \<Rightarrow> string \<Rightarrow> bool" where
  "startswith s p = (take (length p) s = p)"

text \<open>\<^verbatim>\<open>sub in s\<close>: \<open>sub\<close> occurs in \<open>s\<close> as a contiguous substring.\<close>

fun contains :: "string \<Rightarrow> string \<Rightarrow> bool" where
  "contains [] sub = (sub = [])"
| "contains (c # s) sub = (startswith (c # s) sub \<or> contains s sub)"

text \<open>The decimal rendering of an integer in an f-string.\<close>

fun str_nat :: "nat \<Rightarrow> string" where
  "str_nat n =
     (if n < 10 then [''0123456789'' ! n]
      else str_nat (n div 10) @ [''0123456789'' ! (n mod 10)])"

declare str_nat.simps [simp del]

definition str_int :: "int \<Rightarrow> string" where
  "str_int i = (if i < 0 then CHR ''-'' # str_nat (nat (- i)) else str_nat (nat i))"

section \<open>The scraper object\<close>

text \<open>\<^verbatim>\<open>GenericScraper.__init__\<close> (lines 46-55).\<close>

definition user_agent :: string where
  "user_agent = ''Mozilla/5.0 (Windows NT 10.0; Win64; x64) AppleWebKit/537.36 (KHTML, like Gecko) Chrome/114.0.0.0 Safari/537.36''"

definition init :: "string \<Rightarrow> int \<Rightarrow> int \<Rightarrow> string \<Rightarrow> string \<Rightarrow> bool \<Rightarrow> scraper" where
  "init b sp ep pp lb pe =
     \<lparr> base_url = rstrip_slash b,
       start_page = sp,
       end_page = ep,
       page_param = pp,
       link_base = rstrip_slash lb,
       pagination_enabled = pe,
       headers = [(''User-Agent'', user_agent)] \<rparr>"

section \<open>Page fetcher\<close>

text \<open>
  \<^verbatim>\<open>response.raise_for_status()\<close> raises \<^verbatim>\<open>HTTPError\<close> (a \<^verbatim>\<open>RequestException\<close>)
  for a status from 400 to 599 and for no other.
\<close>

definition raises_for_status :: "int \<Rightarrow> bool" where
  "raises_for_status st = (400 \<le> st \<and> st < 600)"

text \<open>
  \<^verbatim>\<open>GenericScraper.request_page\<close> (lines 57-75). \<open>n\<close> is the number of requests the
  run has sent before this one. The pause of one second stands inside the
  \<^verbatim>\<open>try\<close>, after \<^verbatim>\<open>raise_for_status\<close>.
\<close>

definition request_page :: "network \<Rightarrow> scraper \<Rightarrow> nat \<Rightarrow> string \<Rightarrow> doc option \<times> event list" where
  "request_page net s n url =
     (case net n url of
        RequestException \<Rightarrow>
          (None, [PrintRequesting url, HttpGet url (headers s), PrintRequestFailed url])
      | Response st soup \<Rightarrow>
          if raises_for_status st
          then (None, [PrintRequesting url, HttpGet url (headers s), PrintRequestFailed url])
          else (Some soup, [PrintRequesting url, HttpGet url (headers s), Sleep 1]))"

section \<open>Pager\<close>

text \<open>
  Lines 89-92: \<^verbatim>\<open>range(self.start_page, self.end_page + 1)\<close> when pagination is
  enabled, the single pseudo page \<^verbatim>\<open>None\<close> otherwise.
\<close>

definition pages :: "scraper \<Rightarrow> int option list" where
  "pages s =
     (if pagination_enabled s then map Some [start_page s..end_page s] else [None])"

text \<open>Lines 95-98: the URL of a page.\<close>

definition page_url :: "scraper \<Rightarrow> int option \<Rightarrow> string" where
  "page_url s page_num =
     (case page_num of
        None \<Rightarrow> base_url s
      | Some p \<Rightarrow> base_url s @ page_param s @ str_int p)"

definition page_urls :: "scraper \<Rightarrow> string list" where
  "page_urls s = map (page_url s) (pages s)"

section \<open>Field extractor\<close>

text \<open>\<^verbatim>\<open>el.get(name)\<close>.\<close>

definition el_get :: "element \<Rightarrow> string \<Rightarrow> cell" where
  "el_get el name = map_of (el_attrs el) name"

text \<open>Lines 106-112: the values of one field of one page.\<close>

definition extract_field :: "doc \<Rightarrow> string \<Rightarrow> cell list" where
  "extract_field soup selector =
     (let elements = soup selector in
      if contains selector ''[href]'' then map (\<lambda>el. el_get el ''href'') elements
      else if contains selector ''[src]'' then map (\<lambda>el. el_get el ''src'') elements
      else map (\<lambda>el. Some (el_text el)) elements)"

text \<open>
  Lines 104-112: \<^verbatim>\<open>raw_data\<close>, filled key by key. Assigning to a key that the
  dictionary has replaces its value in place; a new key goes to the end.
\<close>

definition raw_data :: "doc \<Rightarrow> (string, string) dict \<Rightarrow> (string, cell list) dict" where
  "raw_data soup field_selectors =
     fold (\<lambda>(key, selector) raw. AList.update key (extract_field soup selector) raw)
       field_selectors []"

section \<open>Listing scraper\<close>

text \<open>\<^verbatim>\<open>min(...)\<close> over a generator: \<^verbatim>\<open>ValueError\<close> when it yields nothing.\<close>

definition py_min :: "nat list \<Rightarrow> error + nat" where
  "py_min xs = (case xs of [] \<Rightarrow> Inl ValueError_min_empty | x # rest \<Rightarrow> Inr (fold min rest x))"

text \<open>
  Lines 118-119: every list of \<^verbatim>\<open>field_data\<close> is extended by the first \<open>min_len\<close>
  values of the page; \<^verbatim>\<open>raw_data[key]\<close> raises \<^verbatim>\<open>KeyError\<close> for a missing key.
\<close>

fun extend_all ::
  "(string, cell list) dict \<Rightarrow> nat \<Rightarrow> (string, cell list) dict \<Rightarrow> error + (string, cell list) dict"
where
  "extend_all raw min_len [] = Inr []"
| "extend_all raw min_len ((key, acc) # rest) =
     (case map_of raw key of
        None \<Rightarrow> Inl (KeyError key)
      | Some lst \<Rightarrow>
          (case extend_all raw min_len rest of
             Inl e \<Rightarrow> Inl e
           | Inr rest' \<Rightarrow> Inr ((key, acc @ take min_len lst) # rest')))"

text \<open>Lines 104-119: what one fetched page adds to \<^verbatim>\<open>field_data\<close>.\<close>

definition scrape_page ::
  "(string, string) dict \<Rightarrow> doc \<Rightarrow> int option \<Rightarrow> (string, cell list) dict
     \<Rightarrow> (error + (string, cell list) dict) \<times> event list"
where
  "scrape_page field_selectors soup page_num field_data =
     (let raw = raw_data soup field_selectors in
      case py_min (map (\<lambda>(key, lst). length lst) raw) of
        Inl e \<Rightarrow> (Inl e, [])
      | Inr min_len \<Rightarrow>
          (extend_all raw min_len field_data,
           if list_ex (\<lambda>(key, lst). length lst \<noteq> min_len) raw
           then [PrintTruncationWarning page_num] else []))"

text \<open>Lines 94-119: the loop over the pages; a page that cannot be fetched is skipped.\<close>

fun scrape_pages ::
  "network \<Rightarrow> scraper \<Rightarrow> (string, string) dict \<Rightarrow> nat \<Rightarrow> int option list
     \<Rightarrow> (string, cell list) dict \<Rightarrow> (error + (string, cell list) dict) \<times> event list"
where
  "scrape_pages net s field_selectors n [] field_data = (Inr field_data, [])"
| "scrape_pages net s field_selectors n (page_num # rest) field_data =
     (case request_page net s n (page_url s page_num) of
        (None, ev) \<Rightarrow>
          (case scrape_pages net s field_selectors (Suc n) rest field_data of
             (r, ev') \<Rightarrow> (r, ev @ ev'))
      | (Some soup, ev) \<Rightarrow>
          (case scrape_page field_selectors soup page_num field_data of
             (Inl e, ev1) \<Rightarrow> (Inl e, ev @ ev1)
           | (Inr field_data', ev1) \<Rightarrow>
               (case scrape_pages net s field_selectors (Suc n) rest field_data' of
                  (r, ev') \<Rightarrow> (r, ev @ ev1 @ ev'))))"

text \<open>\<^verbatim>\<open>GenericScraper.scrape_listing_data\<close> (lines 77-121).\<close>

definition scrape_listing_data ::
  "network \<Rightarrow> scraper \<Rightarrow> nat \<Rightarrow> (string, string) dict
     \<Rightarrow> (error + (string, cell list) dict) \<times> event list"
where
  "scrape_listing_data net s n field_selectors =
     scrape_pages net s field_selectors n (pages s) (map (\<lambda>(key, selector). (key, [])) field_selectors)"

section \<open>Enricher\<close>

text \<open>Line 147: the URL of the detail page of a link.\<close>

definition full_url :: "scraper \<Rightarrow> string \<Rightarrow> string" where
  "full_url s url = (if startswith url ''http'' then url else link_base s @ url)"

text \<open>\<^verbatim>\<open>soup.select_one(selector)\<close>: the first matched node, or \<^verbatim>\<open>None\<close>.\<close>

definition select_one :: "doc \<Rightarrow> string \<Rightarrow> element option" where
  "select_one soup selector = (case soup selector of [] \<Rightarrow> None | tag # others \<Rightarrow> Some tag)"

text \<open>
  Line 155: \<^verbatim>\<open>tag.get(attr) if attr else tag.get_text(strip=True)\<close>; an empty
  attribute name is falsy, as \<^verbatim>\<open>None\<close> is.
\<close>

definition tag_value :: "string option \<Rightarrow> element \<Rightarrow> cell" where
  "tag_value attr tag =
     (case attr of
        None \<Rightarrow> Some (el_text tag)
      | Some a \<Rightarrow> if a = [] then Some (el_text tag) else el_get tag a)"

text \<open>Lines 152-156: the selectors are tried in order; a matched tag is truthy.\<close>

fun try_selectors :: "doc \<Rightarrow> string list \<Rightarrow> string option \<Rightarrow> cell" where
  "try_selectors soup [] attr = None"
| "try_selectors soup (selector # rest) attr =
     (case select_one soup selector of
        None \<Rightarrow> try_selectors soup rest attr
      | Some tag \<Rightarrow> tag_value attr tag)"

text \<open>
  \<^verbatim>\<open>GenericScraper.get_value_from_product_page\<close> (lines 135-156), for a link that
  is a string.
\<close>

definition get_value_from_product_page ::
  "network \<Rightarrow> scraper \<Rightarrow> nat \<Rightarrow> string \<Rightarrow> string list \<Rightarrow> string option \<Rightarrow> cell \<times> event list"
where
  "get_value_from_product_page net s n url selectors attr =
     (case request_page net s n (full_url s url) of
        (None, ev) \<Rightarrow> (None, ev)
      | (Some soup, ev) \<Rightarrow> (try_selectors soup selectors attr, ev))"

text \<open>
  Lines 172-174: \<^verbatim>\<open>Series.apply\<close> calls the function on the values of the link
  column from the first row to the last. On a link that is \<^verbatim>\<open>None\<close>,
  \<^verbatim>\<open>url.startswith\<close> raises \<^verbatim>\<open>AttributeError\<close>.
\<close>

fun apply_links ::
  "network \<Rightarrow> scraper \<Rightarrow> nat \<Rightarrow> string list \<Rightarrow> string option \<Rightarrow> cell list
     \<Rightarrow> (error + cell list) \<times> event list"
where
  "apply_links net s n selectors attr [] = (Inr [], [])"
| "apply_links net s n selectors attr (None # rest) = (Inl AttributeError_startswith, [])"
| "apply_links net s n selectors attr (Some url # rest) =
     (case get_value_from_product_page net s n url selectors attr of
        (v, ev) \<Rightarrow>
          (case apply_links net s (Suc n) selectors attr rest of
             (Inl e, ev') \<Rightarrow> (Inl e, ev @ ev')
           | (Inr vs, ev') \<Rightarrow> (Inr (v # vs), ev @ ev')))"

text \<open>
  \<^verbatim>\<open>GenericScraper.create_dataframe\<close> (lines 123-133): a table is its columns in
  order, all of one length; \<^verbatim>\<open>pd.DataFrame\<close> raises \<^verbatim>\<open>ValueError\<close> for lists of
  different lengths.
\<close>

definition create_dataframe :: "(string, cell list) dict \<Rightarrow> error + (string, cell list) dict" where
  "create_dataframe data_dict =
     (case data_dict of
        [] \<Rightarrow> Inr []
      | (key, col) # rest \<Rightarrow>
          if list_all (\<lambda>(key', col'). length col' = length col) rest
          then Inr data_dict else Inl ValueError_unequal_lengths)"

text \<open>\<^verbatim>\<open>len(df)\<close>: the number of rows.\<close>

definition n_rows :: "(string, cell list) dict \<Rightarrow> nat" where
  "n_rows df = (case df of [] \<Rightarrow> 0 | (key, col) # rest \<Rightarrow> length col)"

text \<open>
  \<^verbatim>\<open>GenericScraper.enrich_dataframe_column_from_pages\<close> (lines 158-175).
  \<^verbatim>\<open>df[link_column]\<close> raises \<^verbatim>\<open>KeyError\<close> for a column the table does not have;
  \<^verbatim>\<open>df[column_name] = ...\<close> replaces the column of that name where it stands, or adds
  it as the last column.
\<close>

definition enrich_dataframe_column_from_pages ::
  "network \<Rightarrow> scraper \<Rightarrow> nat \<Rightarrow> (string, cell list) dict \<Rightarrow> string \<Rightarrow> string list
     \<Rightarrow> string option \<Rightarrow> string \<Rightarrow> (error + (string, cell list) dict) \<times> event list"
where
  "enrich_dataframe_column_from_pages net s n df column_name selectors attr link_column =
     (case map_of df link_column of
        None \<Rightarrow> (Inl (KeyError link_column), [])
      | Some links \<Rightarrow>
          (case apply_links net s n selectors attr links of
             (Inl e, ev) \<Rightarrow> (Inl e, ev)
           | (Inr vals, ev) \<Rightarrow> (Inr (AList.update column_name vals df), ev)))"

section \<open>Sinks\<close>

text \<open>The clock: what \<^verbatim>\<open>datetime.now()\<close> returns.\<close>

record datetime =
  dt_year :: nat
  dt_month :: nat
  dt_day :: nat
  dt_hour :: nat
  dt_minute :: nat
  dt_second :: nat

text \<open>A field of \<^verbatim>\<open>strftime\<close> that is padded with a zero to two digits.\<close>

definition pad2 :: "nat \<Rightarrow> string" where
  "pad2 n = (if n < 10 then CHR ''0'' # str_nat n else str_nat n)"

text \<open>
  \<^verbatim>\<open>_timestamp\<close> (lines 19-20, 29-30, 53-54):
  \<^verbatim>\<open>datetime.now().strftime("%Y%m%d_%H%M")\<close>.
\<close>

definition timestamp :: "datetime \<Rightarrow> string" where
  "timestamp now =
     str_nat (dt_year now) @ pad2 (dt_month now) @ pad2 (dt_day now) @ ''_''
       @ pad2 (dt_hour now) @ pad2 (dt_minute now)"

text \<open>
  \<^verbatim>\<open>os.path.dirname\<close>: the path up to its last slash, without the slashes that
  end it (unless it is made of slashes only).
\<close>

definition dirname :: "string \<Rightarrow> string" where
  "dirname p =
     (let head = rev (dropWhile (\<lambda>c. c \<noteq> CHR ''/'') (rev p)) in
      if head \<noteq> [] \<and> \<not> list_all (\<lambda>c. c = CHR ''/'') head then rstrip_slash head else head)"

text \<open>Lines 14, 24 and 44: the path of the file a sink writes.\<close>

definition save_path :: "file_format \<Rightarrow> string \<Rightarrow> datetime \<Rightarrow> string" where
  "save_path saver name now =
     (case saver of
        Csv \<Rightarrow> ''outputs/csv/'' @ name @ ''_'' @ timestamp now @ ''.csv''
      | Json \<Rightarrow> ''outputs/json/'' @ name @ ''_'' @ timestamp now @ ''.json''
      | Xml \<Rightarrow> ''outputs/xml/'' @ name @ ''_'' @ timestamp now @ ''.xml'')"

text \<open>The directory and the extension of each sink, as lines 14, 24 and 44 spell them.\<close>

definition sink_dir :: "file_format \<Rightarrow> string" where
  "sink_dir saver = (case saver of Csv \<Rightarrow> ''outputs/csv'' | Json \<Rightarrow> ''outputs/json'' | Xml \<Rightarrow> ''outputs/xml'')"

definition sink_ext :: "file_format \<Rightarrow> string" where
  "sink_ext saver = (case saver of Csv \<Rightarrow> ''csv'' | Json \<Rightarrow> ''json'' | Xml \<Rightarrow> ''xml'')"

text \<open>
  \<^verbatim>\<open>CsvStrategy.save\<close>, \<^verbatim>\<open>JsonStrategy.save\<close> and \<^verbatim>\<open>XmlStrategy.save\<close>:
  \<^verbatim>\<open>os.makedirs(os.path.dirname(path), exist_ok=True)\<close> (the event \<open>MakeDirs\<close>:
  the directory and every missing directory above it are created), the table is
  written to the path in the format of the sink, and the path is printed.
\<close>

definition save :: "file_format \<Rightarrow> (string, cell list) dict \<Rightarrow> string \<Rightarrow> datetime \<Rightarrow> event list" where
  "save saver df name now =
     (let path = save_path saver name now in
      [MakeDirs (dirname path), WriteFile saver path df, PrintSaved saver path])"

section \<open>Entry point\<close>

text \<open>\<^verbatim>\<open>get_saver\<close> of \<^verbatim>\<open>main.py\<close> (lines 57-65).\<close>

definition get_saver :: "string \<Rightarrow> error + file_format" where
  "get_saver strategy =
     (if strategy = ''csv'' then Inr Csv
      else if strategy = ''json'' then Inr Json
      else if strategy = ''xml'' then Inr Xml
      else Inl (ValueError_unsupported_strategy strategy))"

text \<open>
  The configuration that \<^verbatim>\<open>main\<close> has loaded. The keys it reads with
  \<^verbatim>\<open>config.get\<close> may be missing; so may \<^verbatim>\<open>enrich_selectors\<close>, read only when
  enrichment is on. The other keys are present.
\<close>

record config =
  cfg_base_url :: string
  cfg_start_page :: int
  cfg_end_page :: int
  cfg_link_base :: string
  cfg_pagination :: "bool option"
  cfg_field_selectors :: "(string, string) dict"
  cfg_enrich :: "bool option"
  cfg_enrich_column :: "string option"
  cfg_enrich_selectors :: "string list option"
  cfg_save_strategy :: string
  cfg_output_name :: string

text \<open>Lines 21-27 of \<^verbatim>\<open>main.py\<close>: the scraper of a run.\<close>

definition main_scraper :: "config \<Rightarrow> scraper" where
  "main_scraper config =
     init (cfg_base_url config) (cfg_start_page config) (cfg_end_page config) ''?page=''
       (cfg_link_base config)
       (case cfg_pagination config of None \<Rightarrow> False | Some b \<Rightarrow> b)"

text \<open>
  Lines 29-42 of \<^verbatim>\<open>main.py\<close>: the listing scrape, the table and the optional
  enrichment from the column \<^verbatim>\<open>link\<close>. The enrichment starts after the requests
  of the listing scrape, one per page.
\<close>

definition main_scrape ::
  "config \<Rightarrow> network \<Rightarrow> (error + (string, cell list) dict) \<times> event list"
where
  "main_scrape config net =
     (let s = main_scraper config in
      case scrape_listing_data net s 0 (cfg_field_selectors config) of
        (Inl e, ev) \<Rightarrow> (Inl e, PrintScrapingListing # ev)
      | (Inr data, ev) \<Rightarrow>
          (case create_dataframe data of
             Inl e \<Rightarrow> (Inl e, PrintScrapingListing # ev)
           | Inr df \<Rightarrow>
               if (case cfg_enrich config of None \<Rightarrow> False | Some b \<Rightarrow> b)
               then
                 (case cfg_enrich_selectors config of
                    None \<Rightarrow>
                      (Inl (KeyError ''enrich_selectors''),
                       PrintScrapingListing # ev @ [PrintEnriching])
                  | Some selectors \<Rightarrow>
                      (case enrich_dataframe_column_from_pages net s (length (pages s)) df
                              (case cfg_enrich_column config of
                                 None \<Rightarrow> ''content'' | Some c \<Rightarrow> c)
                              selectors None ''link'' of
                         (Inl e, ev2) \<Rightarrow>
                           (Inl e, PrintScrapingListing # ev @ PrintEnriching # ev2)
                       | (Inr df', ev2) \<Rightarrow>
                           (Inr df',
                            PrintScrapingListing # ev @ PrintEnriching # ev2
                              @ [PrintExtracted (n_rows df')])))
               else (Inr df, PrintScrapingListing # ev @ [PrintExtracted (n_rows df)])))"

text \<open>
  \<^verbatim>\<open>main\<close> of \<^verbatim>\<open>main.py\<close> from line 20 on: the sink is looked up (lines 44-45)
  after the scrape.
\<close>

definition main :: "config \<Rightarrow> network \<Rightarrow> datetime \<Rightarrow> (error + unit) \<times> event list" where
  "main config net now =
     (case main_scrape config net of
        (Inl e, ev) \<Rightarrow> (Inl e, ev)
      | (Inr df, ev) \<Rightarrow>
          (case get_saver (cfg_save_strategy config) of
             Inl e \<Rightarrow> (Inl e, ev)
           | Inr saver \<Rightarrow> (Inr (), ev @ save saver df (cfg_output_name config) now)))"

section \<open>Observations on the events of a run\<close>

text \<open>The URLs a run asked the network for, in the order of the requests.\<close>

fun requested :: "event list \<Rightarrow> string list" where
  "requested [] = []"
| "requested (HttpGet url h # ev) = url # requested ev"
| "requested (e # ev) = requested ev"

section \<open>Example inputs\<close>

text \<open>
  A listing page with two title nodes, two link nodes (the second without an
  \<^verbatim>\<open>href\<close>) and one image node.
\<close>

definition page0 :: doc where
  "page0 sel =
     (if sel = ''a.item[href]'' then
        [\<lparr>el_attrs = [(''href'', ''/p/1'')], el_text = ''one''\<rparr>,
         \<lparr>el_attrs = [(''class'', ''item'')], el_text = ''two''\<rparr>]
      else if sel = ''img[src]'' then
        [\<lparr>el_attrs = [(''src'', ''/i/1.png'')], el_text = ''''\<rparr>]
      else if sel = ''h2.title'' then
        [\<lparr>el_attrs = [], el_text = ''First''\<rparr>, \<lparr>el_attrs = [], el_text = ''Second''\<rparr>]
      else [])"

text \<open>A listing page with five title nodes, five link nodes and three image nodes.\<close>

definition page53 :: doc where
  "page53 sel =
     (if sel = ''h2.title'' then
        map (\<lambda>t. \<lparr>el_attrs = [], el_text = t\<rparr>) [''t1'', ''t2'', ''t3'', ''t4'', ''t5'']
      else if sel = ''a.item[href]'' then
        map (\<lambda>h. \<lparr>el_attrs = [(''href'', h)], el_text = ''more''\<rparr>)
          [''/p/1'', ''/p/2'', ''/p/3'', ''/p/4'', ''/p/5'']
      else if sel = ''img[src]'' then
        map (\<lambda>h. \<lparr>el_attrs = [(''src'', h)], el_text = ''''\<rparr>) [''/i/1'', ''/i/2'', ''/i/3'']
      else [])"

definition fields3 :: "(string, string) dict" where
  "fields3 = [(''title'', ''h2.title''), (''link'', ''a.item[href]''), (''image'', ''img[src]'')]"

text \<open>
  A detail page on which the first selector of \<open>selectors0\<close> matches nothing and the
  second and the third match.
\<close>

definition detail1 :: doc where
  "detail1 sel =
     (if sel = ''div.body'' then
        [\<lparr>el_attrs = [], el_text = ''body one''\<rparr>, \<lparr>el_attrs = [], el_text = ''body two''\<rparr>]
      else if sel = ''span.alt'' then [\<lparr>el_attrs = [], el_text = ''alt''\<rparr>]
      else [])"

definition selectors0 :: "string list" where
  "selectors0 = [''article p'', ''div.body'', ''span.alt'']"

text \<open>
  A network: one detail page is served, one host cannot be reached, one detail page
  has no node that a selector matches, and every other URL is not found.
\<close>

definition net0 :: network where
  "net0 n url =
     (if url = ''https://site.com/p/1'' then Response 200 detail1
      else if url = ''http://other.org/2'' then RequestException
      else if url = ''https://site.com/p/3'' then Response 200 (\<lambda>sel. [])
      else Response 404 (\<lambda>sel. []))"

definition scraper0 :: scraper where
  "scraper0 = init ''http://x/list/'' 1 1 ''?page='' ''https://site.com/'' False"

definition df0 :: "(string, cell list) dict" where
  "df0 = [(''title'', [Some ''A'', Some ''B'', Some ''C'']),
          (''link'', [Some ''/p/1'', Some ''http://other.org/2'', Some ''/p/3''])]"

definition now0 :: datetime where
  "now0 = \<lparr>dt_year = 2024, dt_month = 1, dt_day = 2, dt_hour = 3, dt_minute = 4, dt_second = 5\<rparr>"

text \<open>
  A run without pagination and without enrichment whose save strategy is
  \<^verbatim>\<open>sqlite\<close>, and a network that serves \<open>page0\<close> at every URL.
\<close>

definition config0 :: config where
  "config0 =
     \<lparr> cfg_base_url = ''http://x/list/'',
       cfg_start_page = 1,
       cfg_end_page = 1,
       cfg_link_base = ''https://site.com'',
       cfg_pagination = None,
       cfg_field_selectors = [(''title'', ''h2.title'')],
       cfg_enrich = None,
       cfg_enrich_column = None,
       cfg_enrich_selectors = None,
       cfg_save_strategy = ''sqlite'',
       cfg_output_name = ''out'' \<rparr>"

definition net1 :: network where
  "net1 n url = Response 200 page0"

text \<open>
  The end-to-end scenario: two selectors, no pagination, and a listing page with
  three title nodes and three link nodes.
\<close>

definition page3 :: doc where
  "page3 sel =
     (if sel = ''h2.title'' then
        map (\<lambda>t. \<lparr>el_attrs = [], el_text = t\<rparr>) [''T1'', ''T2'', ''T3'']
      else if sel = ''a.item[href]'' then
        map (\<lambda>h. \<lparr>el_attrs = [(''href'', h)], el_text = ''read''\<rparr>) [''/a/1'', ''/a/2'', ''/a/3'']
      else [])"

definition config1 :: config where
  "config1 =
     \<lparr> cfg_base_url = ''http://x/list'',
       cfg_start_page = 1,
       cfg_end_page = 5,
       cfg_link_base = '''',
       cfg_pagination = Some False,
       cfg_field_selectors = [(''title'', ''h2.title''), (''link'', ''a.item[href]'')],
       cfg_enrich = None,
       cfg_enrich_column = None,
       cfg_enrich_selectors = None,
       cfg_save_strategy = ''csv'',
       cfg_output_name = ''out'' \<rparr>"

section \<open>The pager and the requests of the listing scrape\<close>

lemma requested_append: "requested (a @ b) = requested a @ requested b"
  by (induction a rule: requested.induct) auto

lemma requested_request_page: "requested (snd (request_page net s n url)) = [url]"
  by (simp add: request_page_def split: http_result.splits)

lemma scrape_page_no_requests: "requested (snd (scrape_page fs soup p fd)) = []"
  by (simp add: scrape_page_def Let_def split: sum.splits)

lemma requested_scrape_pages_first:
  "\<exists>rest. requested (snd (scrape_pages net s fs n (p # ps) fd)) = page_url s p # rest"
proof -
  obtain r ev where rp: "request_page net s n (page_url s p) = (r, ev)"
    by (cases "request_page net s n (page_url s p)")
  have ev: "requested ev = [page_url s p]"
    using requested_request_page [of net s n "page_url s p"] rp by simp
  show ?thesis
    using rp ev
    by (auto simp: requested_append split: option.splits prod.splits sum.splits)
qed

lemma requested_scrape_pages_prefix:
  "prefix (requested (snd (scrape_pages net s fs n ps fd))) (map (page_url s) ps)"
proof (induction ps arbitrary: n fd)
  case Nil
  show ?case by simp
next
  case (Cons p ps)
  obtain r ev where rp: "request_page net s n (page_url s p) = (r, ev)"
    by (cases "request_page net s n (page_url s p)")
  have ev: "requested ev = [page_url s p]"
    using requested_request_page [of net s n "page_url s p"] rp by simp
  show ?case
  proof (cases r)
    case None
    obtain r2 ev2 where rec: "scrape_pages net s fs (Suc n) ps fd = (r2, ev2)"
      by (cases "scrape_pages net s fs (Suc n) ps fd")
    have "prefix (requested ev2) (map (page_url s) ps)"
      using Cons.IH [of "Suc n" fd] rec by simp
    then show ?thesis
      using rp None rec ev by (simp add: requested_append)
  next
    case (Some soup)
    obtain r1 ev1 where sp: "scrape_page fs soup p fd = (r1, ev1)"
      by (cases "scrape_page fs soup p fd")
    have ev1: "requested ev1 = []"
      using scrape_page_no_requests [of fs soup p fd] sp by simp
    show ?thesis
    proof (cases r1)
      case (Inl e)
      then show ?thesis using rp Some sp ev ev1 by (simp add: requested_append)
    next
      case (Inr fd')
      obtain r2 ev2 where rec: "scrape_pages net s fs (Suc n) ps fd' = (r2, ev2)"
        by (cases "scrape_pages net s fs (Suc n) ps fd'")
      have "prefix (requested ev2) (map (page_url s) ps)"
        using Cons.IH [of "Suc n" fd'] rec by simp
      then show ?thesis
        using rp Some sp Inr rec ev ev1 by (simp add: requested_append)
    qed
  qed
qed

lemma requested_single_page:
  "requested (snd (scrape_pages net s fs n [p] fd)) = [page_url s p]"
proof -
  obtain rest where r: "requested (snd (scrape_pages net s fs n [p] fd)) = page_url s p # rest"
    using requested_scrape_pages_first by blast
  have "prefix (requested (snd (scrape_pages net s fs n [p] fd))) [page_url s p]"
    using requested_scrape_pages_prefix [of net s fs n "[p]" fd] by simp
  then show ?thesis using r by simp
qed

text \<open>
  Claim C3. Without pagination the pager yields the single URL \<open>base_url\<close> of the
  scraper object, whatever \<open>start_page\<close> and \<open>end_page\<close> are, and the listing
  scrape requests exactly that URL. With pagination it yields
  \<open>base_url + page_param + p\<close> for \<open>p\<close> from \<open>start_page\<close> to \<open>end_page\<close> inclusive,
  ascending (the \<open>k\<close>-th URL is the one of page \<open>start_page + k\<close>), and the scrape
  requests these URLs in this order (all of them unless an exception ends it). When
  \<open>end_page < start_page\<close> there is no URL, no request and no error: the scrape
  returns the empty columns.
\<close>

theorem pager_urls:
  "(\<not> pagination_enabled s \<longrightarrow>
      page_urls s = [base_url s] \<and>
      requested (snd (scrape_listing_data net s n fs)) = [base_url s]) \<and>
   (pagination_enabled s \<longrightarrow>
      length (page_urls s) = nat (end_page s - start_page s + 1) \<and>
      (\<forall>k < length (page_urls s).
         page_urls s ! k = base_url s @ page_param s @ str_int (start_page s + int k)) \<and>
      prefix (requested (snd (scrape_listing_data net s n fs))) (page_urls s)) \<and>
   (pagination_enabled s \<and> end_page s < start_page s \<longrightarrow>
      page_urls s = [] \<and>
      scrape_listing_data net s n fs = (Inr (map (\<lambda>(key, selector). (key, [])) fs), []))"
proof (intro conjI impI)
  assume np: "\<not> pagination_enabled s"
  show "page_urls s = [base_url s]"
    using np by (simp add: page_urls_def pages_def page_url_def)
  show "requested (snd (scrape_listing_data net s n fs)) = [base_url s]"
    using np requested_single_page [of net s fs n None "map (\<lambda>(key, selector). (key, [])) fs"]
    by (simp add: scrape_listing_data_def pages_def page_url_def del: scrape_pages.simps)
next
  assume p: "pagination_enabled s"
  show "length (page_urls s) = nat (end_page s - start_page s + 1)"
    using p by (simp add: page_urls_def pages_def)
  show "\<forall>k < length (page_urls s).
         page_urls s ! k = base_url s @ page_param s @ str_int (start_page s + int k)"
    using p by (auto simp add: page_urls_def pages_def page_url_def)
  show "prefix (requested (snd (scrape_listing_data net s n fs))) (page_urls s)"
    by (simp add: scrape_listing_data_def page_urls_def requested_scrape_pages_prefix)
next
  assume "pagination_enabled s \<and> end_page s < start_page s"
  then show "page_urls s = []" by (simp add: page_urls_def pages_def)
next
  assume "pagination_enabled s \<and> end_page s < start_page s"
  then show "scrape_listing_data net s n fs = (Inr (map (\<lambda>(key, selector). (key, [])) fs), [])"
    by (simp add: scrape_listing_data_def pages_def)
qed

text \<open>
  The three cases of C3 at a scraper built by the constructor (which strips the
  trailing slash of the base URL it is given).
\<close>

theorem pager_urls_witness:
  "page_urls (init ''http://x/list/'' 2 4 ''?page='' '''' True) =
     [''http://x/list?page=2'', ''http://x/list?page=3'', ''http://x/list?page=4''] \<and>
   page_urls (init ''http://x/list/'' 2 4 ''?page='' '''' False) = [''http://x/list''] \<and>
   page_urls (init ''http://x/list/'' 4 2 ''?page='' '''' True) = []"
  using pager_urls [of "init ''http://x/list/'' 2 4 ''?page='' '''' True"]
    pager_urls [of "init ''http://x/list/'' 2 4 ''?page='' '''' False"]
    pager_urls [of "init ''http://x/list/'' 4 2 ''?page='' '''' True"]
  by (simp add: init_def rstrip_slash_def page_urls_def pages_def page_url_def str_int_def str_nat.simps upto.simps)

section \<open>The field extractor\<close>

lemma update_fresh: "k \<notin> fst ` set al \<Longrightarrow> AList.update k v al = al @ [(k, v)]"
  by (induction al) auto

lemma fold_update_distinct:
  "distinct (map fst fs) \<Longrightarrow> fst ` set acc \<inter> fst ` set fs = {} \<Longrightarrow>
   fold (\<lambda>(key, selector) raw. AList.update key (f selector) raw) fs acc =
     acc @ map (\<lambda>(key, selector). (key, f selector)) fs"
proof (induction fs arbitrary: acc)
  case Nil
  show ?case by simp
next
  case (Cons a fs)
  obtain k sel where a: "a = (k, sel)" by (cases a)
  have fresh: "k \<notin> fst ` set acc" using Cons.prems(2) a by auto
  have d: "distinct (map fst fs)" using Cons.prems(1) by simp
  have disj: "fst ` set (acc @ [(k, f sel)]) \<inter> fst ` set fs = {}"
    using Cons.prems a by auto
  show ?case
    using Cons.IH [OF d disj] a fresh by (simp add: update_fresh)
qed

lemma raw_data_distinct:
  "distinct (map fst fs) \<Longrightarrow>
   raw_data soup fs = map (\<lambda>(key, selector). (key, extract_field soup selector)) fs"
  using fold_update_distinct [of fs "[]" "extract_field soup"] by (simp add: raw_data_def)

lemma raw_data_keys: "distinct (map fst fs) \<Longrightarrow> map fst (raw_data soup fs) = map fst fs"
  by (simp add: raw_data_distinct case_prod_unfold comp_def)

lemma raw_data_lookup:
  "distinct (map fst fs) \<Longrightarrow> (key, selector) \<in> set fs \<Longrightarrow>
   map_of (raw_data soup fs) key = Some (extract_field soup selector)"
proof -
  assume d: "distinct (map fst fs)" and m: "(key, selector) \<in> set fs"
  have "map_of fs key = Some selector" using d m by simp
  then show ?thesis
    by (simp add: raw_data_distinct [OF d] map_of_map)
qed

lemma extract_field_length: "length (extract_field soup selector) = length (soup selector)"
  by (simp add: extract_field_def Let_def)

lemma extract_field_nth:
  "i < length (soup selector) \<Longrightarrow>
   extract_field soup selector ! i =
     (if contains selector ''[href]'' then el_get (soup selector ! i) ''href''
      else if contains selector ''[src]'' then el_get (soup selector ! i) ''src''
      else Some (el_text (soup selector ! i)))"
  by (simp add: extract_field_def Let_def)

lemma el_get_absent: "(el_get el name = None) = (name \<notin> fst ` set (el_attrs el))"
  by (simp add: el_get_def map_of_eq_None_iff)

text \<open>
  Claim C4. For a selector map (a dictionary: its keys are distinct) and a parsed
  page, the extracted mapping has exactly the keys of the selector map, in their
  order, each with one sequence. The sequence of a key has one value per matched
  node, in the order of the matches, so it is empty for a selector without a
  match. A selector that contains \<^verbatim>\<open>[href]\<close> yields the \<^verbatim>\<open>href\<close> attribute of each
  node; otherwise one that contains \<^verbatim>\<open>[src]\<close> yields the \<^verbatim>\<open>src\<close> attribute;
  otherwise the stripped text. Where an attribute is targeted the value is the
  attribute's, and \<^verbatim>\<open>None\<close> when the node does not have the attribute.
\<close>

theorem field_extractor:
  assumes "distinct (map fst fs)"
  shows "map fst (raw_data soup fs) = map fst fs \<and>
    (\<forall>key selector. (key, selector) \<in> set fs \<longrightarrow>
       (\<exists>vals. map_of (raw_data soup fs) key = Some vals \<and>
          length vals = length (soup selector) \<and>
          (soup selector = [] \<longrightarrow> vals = []) \<and>
          (\<forall>i < length vals.
             vals ! i =
               (if contains selector ''[href]'' then el_get (soup selector ! i) ''href''
                else if contains selector ''[src]'' then el_get (soup selector ! i) ''src''
                else Some (el_text (soup selector ! i))) \<and>
             (contains selector ''[href]'' \<and> ''href'' \<notin> fst ` set (el_attrs (soup selector ! i))
                \<longrightarrow> vals ! i = None) \<and>
             (\<not> contains selector ''[href]'' \<and> contains selector ''[src]'' \<and>
              ''src'' \<notin> fst ` set (el_attrs (soup selector ! i))
                \<longrightarrow> vals ! i = None))))"
proof (intro conjI allI impI)
  show "map fst (raw_data soup fs) = map fst fs"
    using assms by (rule raw_data_keys)
next
  fix key selector
  assume m: "(key, selector) \<in> set fs"
  have l: "map_of (raw_data soup fs) key = Some (extract_field soup selector)"
    using assms m by (rule raw_data_lookup)
  show "\<exists>vals. map_of (raw_data soup fs) key = Some vals \<and>
          length vals = length (soup selector) \<and>
          (soup selector = [] \<longrightarrow> vals = []) \<and>
          (\<forall>i < length vals.
             vals ! i =
               (if contains selector ''[href]'' then el_get (soup selector ! i) ''href''
                else if contains selector ''[src]'' then el_get (soup selector ! i) ''src''
                else Some (el_text (soup selector ! i))) \<and>
             (contains selector ''[href]'' \<and> ''href'' \<notin> fst ` set (el_attrs (soup selector ! i))
                \<longrightarrow> vals ! i = None) \<and>
             (\<not> contains selector ''[href]'' \<and> contains selector ''[src]'' \<and>
              ''src'' \<notin> fst ` set (el_attrs (soup selector ! i))
                \<longrightarrow> vals ! i = None))"
  proof (intro exI conjI allI impI)
    show "map_of (raw_data soup fs) key = Some (extract_field soup selector)" by (rule l)
    show "length (extract_field soup selector) = length (soup selector)"
      by (rule extract_field_length)
    show "soup selector = [] \<Longrightarrow> extract_field soup selector = []"
      by (simp add: extract_field_def)
  next
    fix i assume "i < length (extract_field soup selector)"
    then have i: "i < length (soup selector)" by (simp add: extract_field_length)
    show "extract_field soup selector ! i =
               (if contains selector ''[href]'' then el_get (soup selector ! i) ''href''
                else if contains selector ''[src]'' then el_get (soup selector ! i) ''src''
                else Some (el_text (soup selector ! i)))"
      using i extract_field_nth [of i soup selector] by simp
    show "contains selector ''[href]'' \<and> ''href'' \<notin> fst ` set (el_attrs (soup selector ! i))
            \<Longrightarrow> extract_field soup selector ! i = None"
      using i extract_field_nth [of i soup selector] by (simp add: el_get_absent)
    show "\<not> contains selector ''[href]'' \<and> contains selector ''[src]'' \<and>
              ''src'' \<notin> fst ` set (el_attrs (soup selector ! i))
            \<Longrightarrow> extract_field soup selector ! i = None"
      using i extract_field_nth [of i soup selector] by (simp add: el_get_absent)
  qed
qed

text \<open>
  C4 at the page \<open>page0\<close>: one sequence per key; the link without an \<^verbatim>\<open>href\<close>
  gives \<^verbatim>\<open>None\<close>, the selector without a match gives the empty sequence.
\<close>

theorem field_extractor_witness:
  "distinct (map fst [(''title'', ''h2.title''), (''link'', ''a.item[href]''),
      (''image'', ''img[src]''), (''none'', ''p.x'')]) \<and>
   raw_data page0 [(''title'', ''h2.title''), (''link'', ''a.item[href]''),
      (''image'', ''img[src]''), (''none'', ''p.x'')] =
     [(''title'', [Some ''First'', Some ''Second'']),
      (''link'', [Some ''/p/1'', None]),
      (''image'', [Some ''/i/1.png'']),
      (''none'', [])]"
  using field_extractor [of "[(''title'', ''h2.title''), (''link'', ''a.item[href]''),
      (''image'', ''img[src]''), (''none'', ''p.x'')]" page0]
  by (simp add: raw_data_def extract_field_def page0_def el_get_def startswith_def)

section \<open>Truncation to the shortest field\<close>

lemma py_min_nonempty: "xs \<noteq> [] \<Longrightarrow> py_min xs = Inr (Min (set xs))"
  by (cases xs) (simp_all add: py_min_def Min.set_eq_fold [symmetric])

lemma py_min_empty: "py_min [] = Inl ValueError_min_empty"
  by (simp add: py_min_def)

lemma extend_all_total:
  "list_all (\<lambda>(key, acc). map_of raw key \<noteq> None) fd \<Longrightarrow>
   extend_all raw m fd = Inr (map (\<lambda>(key, acc). (key, acc @ take m (the (map_of raw key)))) fd)"
  by (induction fd) (auto split: option.splits)

lemma raw_lengths:
  "map (\<lambda>(key, lst). length lst) (map (\<lambda>(key, selector). (key, f selector)) fs) =
   map (\<lambda>(key, selector). length (f selector)) fs"
  by (induction fs) auto

lemma keys_lookup_nth:
  assumes d: "distinct (map fst fs)" and k: "map fst fd = map fst fs" and i: "i < length fs"
  shows "map_of (map (\<lambda>(key, selector). (key, f selector)) fs) (fst (fd ! i)) = Some (f (snd (fs ! i)))"
proof -
  have len: "length fd = length fs" using k by (metis length_map)
  have "fst (fd ! i) = fst (fs ! i)"
    using k i len by (metis nth_map)
  moreover have "(fst (fs ! i), snd (fs ! i)) \<in> set fs" using i by simp
  then have "map_of fs (fst (fs ! i)) = Some (snd (fs ! i))" using d by simp
  ultimately show ?thesis by (simp add: map_of_map)
qed

lemma keys_all_found:
  assumes d: "distinct (map fst fs)" and k: "map fst fd = map fst fs"
  shows "list_all (\<lambda>(key, acc). map_of (map (\<lambda>(key, selector). (key, f selector)) fs) key \<noteq> None) fd"
proof -
  have len: "length fd = length fs" using k by (metis length_map)
  have "\<forall>i < length fd. map_of (map (\<lambda>(key, selector). (key, f selector)) fs) (fst (fd ! i)) \<noteq> None"
    by (simp add: keys_lookup_nth [OF d k] len)
  then show ?thesis
    by (auto simp: list_all_length case_prod_unfold)
qed

text \<open>
  Claim C1. Let the fields of a fetched page have sequences of different lengths
  (the selector map is a dictionary, and \<open>field_data\<close> has its keys in its order, as
  the loop keeps it). Then the page raises nothing and prints exactly one truncation
  warning; \<open>min_len\<close> is the least of the lengths; every field of the cumulative
  record set is extended by the first \<open>min_len\<close> values of its sequence, so it grows
  by exactly \<open>min_len\<close> rows and nothing is padded. For the lengths 5, 5, 3 every field
  grows by 3 rows.
\<close>

theorem truncation_to_min_len:
  assumes d: "distinct (map fst fs)"
    and k: "map fst field_data = map fst fs"
    and differ: "\<exists>a \<in> set fs. \<exists>b \<in> set fs.
                   length (extract_field soup (snd a)) \<noteq> length (extract_field soup (snd b))"
  shows "\<exists>min_len field_data'.
     scrape_page fs soup page_num field_data = (Inr field_data', [PrintTruncationWarning page_num]) \<and>
     (\<forall>a \<in> set fs. min_len \<le> length (extract_field soup (snd a))) \<and>
     (\<exists>a \<in> set fs. min_len = length (extract_field soup (snd a))) \<and>
     map fst field_data' = map fst field_data \<and>
     (\<forall>i < length fs.
        snd (field_data' ! i) =
          snd (field_data ! i) @ take min_len (extract_field soup (snd (fs ! i))) \<and>
        length (snd (field_data' ! i)) = length (snd (field_data ! i)) + min_len) \<and>
     (map (\<lambda>a. length (extract_field soup (snd a))) fs = [5, 5, 3] \<longrightarrow> min_len = 3)"
proof -
  define lens where "lens = map (\<lambda>a. length (extract_field soup (snd a))) fs"
  define m where "m = Min (set lens)"
  define raw where "raw = map (\<lambda>(key, selector). (key, extract_field soup selector)) fs"
  define fd' where "fd' = map (\<lambda>(key, acc). (key, acc @ take m (the (map_of raw key)))) field_data"
  have raw: "raw_data soup fs = raw" using d by (simp add: raw_data_distinct raw_def)
  have lens: "map (\<lambda>(key, lst). length lst) raw = lens"
    by (simp add: raw_def lens_def raw_lengths case_prod_unfold)
  have ne: "fs \<noteq> []" using differ by auto
  then have lne: "lens \<noteq> []" by (simp add: lens_def)
  have pm: "py_min lens = Inr m" using lne by (simp add: py_min_nonempty m_def)
  have fin: "finite (set lens)" by simp
  have m_le: "\<forall>a \<in> set fs. m \<le> length (extract_field soup (snd a))"
    by (simp add: m_def lens_def)
  have "m \<in> set lens" unfolding m_def using lne by (intro Min_in) simp_all
  then have m_in: "\<exists>a \<in> set fs. m = length (extract_field soup (snd a))"
    by (auto simp: lens_def)
  obtain a b where ab: "a \<in> set fs" "b \<in> set fs"
      "length (extract_field soup (snd a)) \<noteq> length (extract_field soup (snd b))"
    using differ by blast
  then have "length (extract_field soup (snd a)) \<noteq> m \<or> length (extract_field soup (snd b)) \<noteq> m"
    by auto
  then have "\<exists>c \<in> set fs. length (extract_field soup (snd c)) \<noteq> m" using ab by blast
  then have warn: "list_ex (\<lambda>(key, lst). length lst \<noteq> m) raw"
    by (auto simp: raw_def list_ex_iff case_prod_unfold)
  have found: "list_all (\<lambda>(key, acc). map_of raw key \<noteq> None) field_data"
    unfolding raw_def using d k by (rule keys_all_found)
  have ext: "extend_all raw m field_data = Inr fd'"
    using found by (simp add: extend_all_total fd'_def)
  have sp: "scrape_page fs soup page_num field_data = (Inr fd', [PrintTruncationWarning page_num])"
    using pm warn ext by (simp add: scrape_page_def raw lens)
  have keys: "map fst fd' = map fst field_data"
    by (simp add: fd'_def case_prod_unfold comp_def)
  have len: "length field_data = length fs" using k by (metis length_map)
  have rows: "\<forall>i < length fs.
        snd (fd' ! i) = snd (field_data ! i) @ take m (extract_field soup (snd (fs ! i))) \<and>
        length (snd (fd' ! i)) = length (snd (field_data ! i)) + m"
  proof (intro allI impI)
    fix i assume i: "i < length fs"
    have l: "map_of raw (fst (field_data ! i)) = Some (extract_field soup (snd (fs ! i)))"
      unfolding raw_def using d k i by (rule keys_lookup_nth)
    have e: "snd (fd' ! i) = snd (field_data ! i) @ take m (extract_field soup (snd (fs ! i)))"
      using i len l by (simp add: fd'_def case_prod_unfold)
    have "m \<le> length (extract_field soup (snd (fs ! i)))" using m_le i by simp
    then show "snd (fd' ! i) = snd (field_data ! i) @ take m (extract_field soup (snd (fs ! i))) \<and>
        length (snd (fd' ! i)) = length (snd (field_data ! i)) + m"
      using e by simp
  qed
  have ex: "lens = [5, 5, 3] \<longrightarrow> m = 3" by (simp add: m_def)
  show ?thesis
    using sp m_le m_in keys rows ex unfolding lens_def by blast
qed


lemma extract_page53:
  "extract_field page53 ''h2.title'' = [Some ''t1'', Some ''t2'', Some ''t3'', Some ''t4'', Some ''t5'']"
  "extract_field page53 ''a.item[href]'' =
     [Some ''/p/1'', Some ''/p/2'', Some ''/p/3'', Some ''/p/4'', Some ''/p/5'']"
  "extract_field page53 ''img[src]'' = [Some ''/i/1'', Some ''/i/2'', Some ''/i/3'']"
  by (simp_all add: extract_field_def page53_def startswith_def el_get_def)

text \<open>C1 at a page with the lengths 5, 5, 3, merged into one earlier row.\<close>

theorem truncation_to_min_len_witness:
  "map (\<lambda>a. length (extract_field page53 (snd a))) fields3 = [5, 5, 3] \<and>
   scrape_page fields3 page53 (Some 2) [(''title'', [Some ''t0'']), (''link'', [Some ''/p/0'']), (''image'', [Some ''/i/0''])] =
     (Inr [(''title'', [Some ''t0'', Some ''t1'', Some ''t2'', Some ''t3'']),
           (''link'', [Some ''/p/0'', Some ''/p/1'', Some ''/p/2'', Some ''/p/3'']),
           (''image'', [Some ''/i/0'', Some ''/i/1'', Some ''/i/2'', Some ''/i/3''])],
      [PrintTruncationWarning (Some 2)])"
proof -
  let ?fd = "[(''title'', [Some ''t0'']), (''link'', [Some ''/p/0'']), (''image'', [Some ''/i/0''])]"
  have d: "distinct (map fst fields3)" by (simp add: fields3_def)
  have k: "map fst ?fd = map fst fields3" by (simp add: fields3_def)
  have lens: "map (\<lambda>a. length (extract_field page53 (snd a))) fields3 = [5, 5, 3]"
    by (simp add: fields3_def extract_page53)
  have differ: "\<exists>a \<in> set fields3. \<exists>b \<in> set fields3.
      length (extract_field page53 (snd a)) \<noteq> length (extract_field page53 (snd b))"
    by (auto simp: fields3_def extract_page53)
  obtain m fd' where
    sp: "scrape_page fields3 page53 (Some 2) ?fd = (Inr fd', [PrintTruncationWarning (Some 2)])"
    and m3: "map (\<lambda>a. length (extract_field page53 (snd a))) fields3 = [5, 5, 3] \<longrightarrow> m = 3"
    and rows: "\<forall>i < length fields3.
        length (snd (fd' ! i)) = length (snd (?fd ! i)) + m"
    using truncation_to_min_len [OF d k differ, of "Some 2"] by blast
  have raw: "raw_data page53 fields3 =
      [(''title'', [Some ''t1'', Some ''t2'', Some ''t3'', Some ''t4'', Some ''t5'']),
       (''link'', [Some ''/p/1'', Some ''/p/2'', Some ''/p/3'', Some ''/p/4'', Some ''/p/5'']),
       (''image'', [Some ''/i/1'', Some ''/i/2'', Some ''/i/3''])]"
    by (simp add: raw_data_def fields3_def extract_page53)
  have comp: "scrape_page fields3 page53 (Some 2) ?fd =
     (Inr [(''title'', [Some ''t0'', Some ''t1'', Some ''t2'', Some ''t3'']),
           (''link'', [Some ''/p/0'', Some ''/p/1'', Some ''/p/2'', Some ''/p/3'']),
           (''image'', [Some ''/i/0'', Some ''/i/1'', Some ''/i/2'', Some ''/i/3''])],
      [PrintTruncationWarning (Some 2)])"
    by (simp add: scrape_page_def raw py_min_def)
  show ?thesis using sp comp lens by simp
qed

section \<open>Enrichment\<close>

lemma try_selectors_none:
  "list_all (\<lambda>selector. soup selector = []) selectors \<Longrightarrow> try_selectors soup selectors attr = None"
  by (induction selectors) (auto simp: select_one_def)

lemma try_selectors_first:
  "j < length selectors \<Longrightarrow> soup (selectors ! j) \<noteq> [] \<Longrightarrow>
   (\<forall>i < j. soup (selectors ! i) = []) \<Longrightarrow>
   try_selectors soup selectors attr = tag_value attr (hd (soup (selectors ! j)))"
proof (induction selectors arbitrary: j)
  case Nil
  then show ?case by simp
next
  case (Cons sel rest)
  show ?case
  proof (cases j)
    case 0
    then show ?thesis using Cons.prems by (auto simp: select_one_def split: list.splits)
  next
    case (Suc j')
    have first: "soup sel = []" using Cons.prems(3) Suc by auto
    have "try_selectors soup rest attr = tag_value attr (hd (soup (rest ! j')))"
    proof (rule Cons.IH)
      show "j' < length rest" using Cons.prems(1) Suc by simp
      show "soup (rest ! j') \<noteq> []" using Cons.prems(2) Suc by simp
      show "\<forall>i < j'. soup (rest ! i) = []"
      proof (intro allI impI)
        fix i assume "i < j'"
        then have "Suc i < j" using Suc by simp
        then have "soup ((sel # rest) ! Suc i) = []" using Cons.prems(3) by blast
        then show "soup (rest ! i) = []" by simp
      qed
    qed
    then show ?thesis using first Suc by (simp add: select_one_def)
  qed
qed

lemma apply_links_strings:
  "list_all (\<lambda>l. l \<noteq> None) links \<Longrightarrow>
   \<exists>vals ev. apply_links net s n selectors attr links = (Inr vals, ev) \<and>
     length vals = length links \<and>
     (\<forall>i < length links.
        vals ! i = fst (get_value_from_product_page net s (n + i) (the (links ! i)) selectors attr))"
proof (induction links arbitrary: n)
  case Nil
  show ?case by simp
next
  case (Cons l links)
  obtain url where l: "l = Some url" using Cons.prems by auto
  have rest: "list_all (\<lambda>l. l \<noteq> None) links" using Cons.prems by simp
  obtain vals ev where
    al: "apply_links net s (Suc n) selectors attr links = (Inr vals, ev)"
    and len: "length vals = length links"
    and vs: "\<forall>i < length links.
        vals ! i = fst (get_value_from_product_page net s (Suc n + i) (the (links ! i)) selectors attr)"
    using Cons.IH [OF rest, of "Suc n"] by blast
  obtain v ev0 where gv: "get_value_from_product_page net s n url selectors attr = (v, ev0)"
    by (cases "get_value_from_product_page net s n url selectors attr")
  have res: "apply_links net s n selectors attr (l # links) = (Inr (v # vals), ev0 @ ev)"
    using l gv al by simp
  have "\<forall>i < length (l # links).
        (v # vals) ! i = fst (get_value_from_product_page net s (n + i) (the ((l # links) ! i)) selectors attr)"
  proof (intro allI impI)
    fix i assume i: "i < length (l # links)"
    show "(v # vals) ! i = fst (get_value_from_product_page net s (n + i) (the ((l # links) ! i)) selectors attr)"
    proof (cases i)
      case 0
      then show ?thesis using l gv by simp
    next
      case (Suc i')
      then have "i' < length links" using i by simp
      then show ?thesis using vs Suc by simp
    qed
  qed
  then show ?case using res len by simp
qed

lemma apply_links_null:
  "\<not> list_all (\<lambda>l. l \<noteq> None) links \<Longrightarrow>
   fst (apply_links net s n selectors attr links) = Inl AttributeError_startswith"
proof (induction links arbitrary: n)
  case Nil
  then show ?case by simp
next
  case (Cons l links)
  show ?case
  proof (cases l)
    case None
    then show ?thesis by simp
  next
    case (Some url)
    then have "\<not> list_all (\<lambda>l. l \<noteq> None) links" using Cons.prems by simp
    then have "fst (apply_links net s (Suc n) selectors attr links) = Inl AttributeError_startswith"
      by (rule Cons.IH)
    then show ?thesis using Some
      by (auto split: prod.splits sum.splits)
  qed
qed

lemma get_value_result:
  "fst (get_value_from_product_page net s n url selectors attr) =
     (case fst (request_page net s n (full_url s url)) of
        None \<Rightarrow> None
      | Some soup \<Rightarrow> try_selectors soup selectors attr)"
  by (simp add: get_value_from_product_page_def split: prod.splits option.splits)

lemma get_value_events:
  "snd (get_value_from_product_page net s n url selectors attr) =
     snd (request_page net s n (full_url s url))"
  by (simp add: get_value_from_product_page_def split: prod.splits option.splits)

lemma get_value_requested:
  "requested (snd (get_value_from_product_page net s n url selectors attr)) = [full_url s url]"
  by (simp add: get_value_events requested_request_page)

lemma update_keys:
  "map fst (AList.update k v al) = (if k \<in> fst ` set al then map fst al else map fst al @ [k])"
  by (induction al) auto

lemma update_other: "c \<noteq> k \<Longrightarrow> map_of (AList.update k v al) c = map_of al c"
  by (simp add: update_conv')

lemma update_same: "map_of (AList.update k v al) k = Some v"
  by (simp add: update_conv')

lemma update_all_lengths:
  "list_all (\<lambda>(key, col). length col = N) al \<Longrightarrow> length v = N \<Longrightarrow>
   list_all (\<lambda>(key, col). length col = N) (AList.update k v al)"
  by (induction al) auto

lemma frame_column_length:
  "list_all (\<lambda>(key, col). length col = N) df \<Longrightarrow> map_of df c = Some col \<Longrightarrow> length col = N"
  by (induction df) (auto split: if_splits)

lemma try_selectors_find:
  "try_selectors soup selectors attr =
     (case find (\<lambda>selector. soup selector \<noteq> []) selectors of
        None \<Rightarrow> None
      | Some selector \<Rightarrow> tag_value attr (hd (soup selector)))"
  by (induction selectors) (auto simp: select_one_def split: list.splits)

lemma enrich_strings:
  assumes lc: "map_of df link_column = Some links"
    and strings: "list_all (\<lambda>l. l \<noteq> None) links"
  shows "\<exists>vals ev.
     enrich_dataframe_column_from_pages net s n df column_name selectors attr link_column =
       (Inr (AList.update column_name vals df), ev) \<and>
     length vals = length links \<and>
     (\<forall>i < length links.
        vals ! i = fst (get_value_from_product_page net s (n + i) (the (links ! i)) selectors attr))"
proof -
  obtain vals ev where
    al: "apply_links net s n selectors attr links = (Inr vals, ev)"
    and len: "length vals = length links"
    and vs: "\<forall>i < length links.
        vals ! i = fst (get_value_from_product_page net s (n + i) (the (links ! i)) selectors attr)"
    using apply_links_strings [OF strings, of net s n selectors attr] by blast
  have "enrich_dataframe_column_from_pages net s n df column_name selectors attr link_column =
       (Inr (AList.update column_name vals df), ev)"
    using lc al by (simp add: enrich_dataframe_column_from_pages_def)
  then show ?thesis using len vs by blast
qed

text \<open>
  Claim C2. Let the table have the link column and let every link be a string. Then
  the enrichment returns a table whose target column has one cell per row, and the
  cell of row \<open>i\<close> is: \<^verbatim>\<open>None\<close> when the fetch of the row's detail page (the
  \<open>i\<close>-th request of the enrichment) fails; \<^verbatim>\<open>None\<close> when no selector of the list
  matches a node of the page; otherwise the value of the first node matched by the
  first selector of the list that matches, whatever the later selectors match. The
  value of a node is its stripped text when no attribute is asked for.
\<close>

theorem enrichment_first_match:
  assumes lc: "map_of df link_column = Some links"
    and strings: "list_all (\<lambda>l. l \<noteq> None) links"
  shows "\<exists>df' ev vals.
     enrich_dataframe_column_from_pages net s n df column_name selectors attr link_column =
       (Inr df', ev) \<and>
     map_of df' column_name = Some vals \<and> length vals = length links \<and>
     (\<forall>i < length links.
        vals ! i =
          (case fst (request_page net s (n + i) (full_url s (the (links ! i)))) of
             None \<Rightarrow> None
           | Some soup \<Rightarrow>
               (case find (\<lambda>selector. soup selector \<noteq> []) selectors of
                  None \<Rightarrow> None
                | Some selector \<Rightarrow> tag_value attr (hd (soup selector))))) \<and>
     (\<forall>tag. tag_value None tag = Some (el_text tag))"
proof -
  obtain vals ev where
    en: "enrich_dataframe_column_from_pages net s n df column_name selectors attr link_column =
       (Inr (AList.update column_name vals df), ev)"
    and len: "length vals = length links"
    and vs: "\<forall>i < length links.
        vals ! i = fst (get_value_from_product_page net s (n + i) (the (links ! i)) selectors attr)"
    using enrich_strings [OF lc strings] by blast
  have col: "map_of (AList.update column_name vals df) column_name = Some vals"
    by (rule update_same)
  have cells: "\<forall>i < length links.
        vals ! i =
          (case fst (request_page net s (n + i) (full_url s (the (links ! i)))) of
             None \<Rightarrow> None
           | Some soup \<Rightarrow>
               (case find (\<lambda>selector. soup selector \<noteq> []) selectors of
                  None \<Rightarrow> None
                | Some selector \<Rightarrow> tag_value attr (hd (soup selector))))"
    using vs by (auto simp: get_value_result try_selectors_find split: option.splits)
  have tv: "\<forall>tag. tag_value None tag = Some (el_text tag)"
    by (simp add: tag_value_def)
  show ?thesis
    using en col len cells tv
    by (intro exI [of _ "AList.update column_name vals df"] exI [of _ ev] exI [of _ vals] conjI)
      assumption+
qed

text \<open>
  Claim C5. Let the table have \<open>N\<close> rows in every column, among them the link column,
  and let every link be a string. Then the enrichment returns a table with \<open>N\<close> rows
  in every column; its columns are those of the input in their order, with the
  target column added last when the input does not have it; every column other than
  the target column is as it was; and cell \<open>i\<close> of the target column is the value got
  for the link of row \<open>i\<close> from the answer to the \<open>i\<close>-th request of the enrichment,
  whatever the network answers and in whatever order the answers would be ready.
\<close>

theorem enrichment_frame:
  assumes lc: "map_of df link_column = Some links"
    and strings: "list_all (\<lambda>l. l \<noteq> None) links"
    and frame: "list_all (\<lambda>(key, col). length col = N) df"
  shows "\<exists>df' ev vals.
     enrich_dataframe_column_from_pages net s n df column_name selectors attr link_column =
       (Inr df', ev) \<and>
     list_all (\<lambda>(key, col). length col = N) df' \<and>
     n_rows df = N \<and> n_rows df' = N \<and>
     map fst df' =
       (if column_name \<in> set (map fst df) then map fst df else map fst df @ [column_name]) \<and>
     (\<forall>c. c \<noteq> column_name \<longrightarrow> map_of df' c = map_of df c) \<and>
     map_of df' column_name = Some vals \<and> length vals = N \<and>
     (\<forall>i < N.
        vals ! i = fst (get_value_from_product_page net s (n + i) (the (links ! i)) selectors attr))"
proof -
  obtain vals ev where
    en: "enrich_dataframe_column_from_pages net s n df column_name selectors attr link_column =
       (Inr (AList.update column_name vals df), ev)"
    and len: "length vals = length links"
    and vs: "\<forall>i < length links.
        vals ! i = fst (get_value_from_product_page net s (n + i) (the (links ! i)) selectors attr)"
    using enrich_strings [OF lc strings] by blast
  let ?df' = "AList.update column_name vals df"
  have ll: "length links = N" using frame lc by (rule frame_column_length)
  have f': "list_all (\<lambda>(key, col). length col = N) ?df'"
    using frame len ll by (simp add: update_all_lengths)
  have ne: "df \<noteq> []" using lc by auto
  have nr: "n_rows df = N" using ne frame by (cases df) (auto simp: n_rows_def)
  have ne': "?df' \<noteq> []" by (cases df) auto
  have nr': "n_rows ?df' = N" using ne' f' by (cases ?df') (auto simp: n_rows_def)
  have keys: "map fst ?df' =
       (if column_name \<in> set (map fst df) then map fst df else map fst df @ [column_name])"
    by (simp add: update_keys)
  have others: "\<forall>c. c \<noteq> column_name \<longrightarrow> map_of ?df' c = map_of df c"
    by (simp add: update_other)
  have col: "map_of ?df' column_name = Some vals" by (rule update_same)
  have lenN: "length vals = N" using len ll by simp
  have vsN: "\<forall>i < N.
        vals ! i = fst (get_value_from_product_page net s (n + i) (the (links ! i)) selectors attr)"
    using vs ll by simp
  show ?thesis
    using en f' nr nr' keys others col lenN vsN
    by (intro exI [of _ "AList.update column_name vals df"] exI [of _ ev] exI [of _ vals] conjI)
      assumption+
qed

lemma all_same_replicate: "\<forall>c \<in> set xs. c = a \<Longrightarrow> xs = replicate (length xs) a"
  by (induction xs) auto

lemma rstrip_slash_suffix: "\<exists>k. s = rstrip_slash s @ replicate k CHR ''/''"
proof -
  let ?t = "takeWhile (\<lambda>c. c = CHR ''/'') (rev s)"
  have "rev (rev s) = rev (?t @ dropWhile (\<lambda>c. c = CHR ''/'') (rev s))"
    by (simp only: takeWhile_dropWhile_id)
  then have s: "s = rstrip_slash s @ rev ?t"
    by (simp only: rev_append rev_rev_ident rstrip_slash_def)
  have "\<forall>c \<in> set (rev ?t). c = CHR ''/''" by (auto dest: set_takeWhileD)
  then have "rev ?t = replicate (length (rev ?t)) CHR ''/''"
    by (rule all_same_replicate)
  then show ?thesis using s by metis
qed

lemma dropWhile_not_first: "dropWhile P xs \<noteq> x # ys \<or> \<not> P x"
  by (induction xs) auto

lemma rstrip_slash_no_trailing: "\<not> (\<exists>t. rstrip_slash s = t @ ''/'')"
proof
  assume "\<exists>t. rstrip_slash s = t @ ''/''"
  then obtain t where t: "rev (dropWhile (\<lambda>c. c = CHR ''/'') (rev s)) = t @ ''/''"
    by (auto simp: rstrip_slash_def)
  then have "rev (rev (dropWhile (\<lambda>c. c = CHR ''/'') (rev s))) = rev (t @ ''/'')" by simp
  then have "dropWhile (\<lambda>c. c = CHR ''/'') (rev s) = CHR ''/'' # rev t"
    by simp
  then show False
    using dropWhile_not_first [of "\<lambda>c. c = CHR ''/''" "rev s" "CHR ''/''" "rev t"] by simp
qed

text \<open>
  Claim C10. For a scraper built by the constructor, the detail page of a link that
  is a string is requested at the link itself when it starts with \<^verbatim>\<open>http\<close>, and
  otherwise at the link base without its trailing slashes, followed by the link. A
  link that is \<^verbatim>\<open>None\<close> is outside the domain: a table with such a link makes the
  enrichment raise \<^verbatim>\<open>AttributeError\<close> instead of giving a null cell. The field
  extractor produces such a link for a node matched by an \<^verbatim>\<open>[href]\<close> selector that
  has no \<^verbatim>\<open>href\<close> attribute.
\<close>

theorem link_resolution:
  "requested (snd (get_value_from_product_page net (init b sp ep pp lb pe) n url selectors attr)) =
     [if startswith url ''http'' then url else rstrip_slash lb @ url] \<and>
   (\<exists>k. lb = rstrip_slash lb @ replicate k CHR ''/'') \<and>
   \<not> (\<exists>t. rstrip_slash lb = t @ ''/'') \<and>
   (map_of df link_column = Some links \<and> \<not> list_all (\<lambda>l. l \<noteq> None) links \<longrightarrow>
      fst (enrich_dataframe_column_from_pages net s n df column_name selectors attr link_column) =
        Inl AttributeError_startswith) \<and>
   (contains selector ''[href]'' \<and> i < length (soup selector) \<and>
    ''href'' \<notin> fst ` set (el_attrs (soup selector ! i)) \<longrightarrow>
      extract_field soup selector ! i = None)"
proof (intro conjI impI)
  show "requested (snd (get_value_from_product_page net (init b sp ep pp lb pe) n url selectors attr)) =
     [if startswith url ''http'' then url else rstrip_slash lb @ url]"
    by (simp add: get_value_requested full_url_def init_def)
  show "\<exists>k. lb = rstrip_slash lb @ replicate k CHR ''/''" by (rule rstrip_slash_suffix)
  show "\<not> (\<exists>t. rstrip_slash lb = t @ ''/'')" by (rule rstrip_slash_no_trailing)
next
  assume a: "map_of df link_column = Some links \<and> \<not> list_all (\<lambda>l. l \<noteq> None) links"
  then have "fst (apply_links net s n selectors attr links) = Inl AttributeError_startswith"
    by (simp add: apply_links_null)
  then show "fst (enrich_dataframe_column_from_pages net s n df column_name selectors attr link_column) =
        Inl AttributeError_startswith"
    using a by (auto simp: enrich_dataframe_column_from_pages_def split: prod.splits sum.splits)
next
  assume a: "contains selector ''[href]'' \<and> i < length (soup selector) \<and>
    ''href'' \<notin> fst ` set (el_attrs (soup selector ! i))"
  then show "extract_field soup selector ! i = None"
    using extract_field_nth [of i soup selector] by (simp add: el_get_absent)
qed

lemma get_value_net0:
  "get_value_from_product_page net0 scraper0 n ''/p/1'' selectors0 None =
     (Some ''body one'',
      [PrintRequesting ''https://site.com/p/1'',
       HttpGet ''https://site.com/p/1'' [(''User-Agent'', user_agent)], Sleep 1])"
  "get_value_from_product_page net0 scraper0 n ''http://other.org/2'' selectors0 None =
     (None,
      [PrintRequesting ''http://other.org/2'',
       HttpGet ''http://other.org/2'' [(''User-Agent'', user_agent)],
       PrintRequestFailed ''http://other.org/2''])"
  "get_value_from_product_page net0 scraper0 n ''/p/3'' selectors0 None =
     (None,
      [PrintRequesting ''https://site.com/p/3'',
       HttpGet ''https://site.com/p/3'' [(''User-Agent'', user_agent)], Sleep 1])"
  by (simp_all add: get_value_from_product_page_def request_page_def net0_def scraper0_def
      init_def rstrip_slash_def full_url_def startswith_def raises_for_status_def
      selectors0_def select_one_def detail1_def tag_value_def)

lemma enrich_df0:
  "fst (enrich_dataframe_column_from_pages net0 scraper0 n df0 c selectors0 None ''link'') =
     Inr (AList.update c [Some ''body one'', None, None] df0)"
  by (simp add: enrich_dataframe_column_from_pages_def df0_def get_value_net0)

text \<open>
  C2 at three rows: the second selector wins over the third on the first detail page,
  the second fetch fails, and on the third detail page no selector matches.
\<close>

theorem enrichment_first_match_witness:
  "map_of df0 ''link'' = Some [Some ''/p/1'', Some ''http://other.org/2'', Some ''/p/3''] \<and>
   fst (enrich_dataframe_column_from_pages net0 scraper0 2 df0 ''content'' selectors0 None ''link'') =
     Inr [(''title'', [Some ''A'', Some ''B'', Some ''C'']),
          (''link'', [Some ''/p/1'', Some ''http://other.org/2'', Some ''/p/3'']),
          (''content'', [Some ''body one'', None, None])]"
proof -
  let ?links = "[Some ''/p/1'', Some ''http://other.org/2'', Some ''/p/3'']"
  have lc: "map_of df0 ''link'' = Some ?links" by (simp add: df0_def)
  have strings: "list_all (\<lambda>l. l \<noteq> None) ?links" by simp
  obtain df' ev vals where
    en: "enrich_dataframe_column_from_pages net0 scraper0 2 df0 ''content'' selectors0 None ''link'' =
       (Inr df', ev)"
    and col: "map_of df' ''content'' = Some vals"
    using enrichment_first_match [OF lc strings, of net0 scraper0 2 "''content''" selectors0 None]
    by blast
  have "fst (enrich_dataframe_column_from_pages net0 scraper0 2 df0 ''content'' selectors0 None ''link'') =
     Inr [(''title'', [Some ''A'', Some ''B'', Some ''C'']),
          (''link'', [Some ''/p/1'', Some ''http://other.org/2'', Some ''/p/3'']),
          (''content'', [Some ''body one'', None, None])]"
    by (simp add: enrich_df0) (simp add: df0_def)
  then show ?thesis using lc en col by simp
qed

text \<open>
  C5 at three rows, with the target column \<open>title\<close> that the table already has: it
  is replaced where it stands, and the link column is as before.
\<close>

theorem enrichment_frame_witness:
  "list_all (\<lambda>(key, col). length col = 3) df0 \<and>
   fst (enrich_dataframe_column_from_pages net0 scraper0 2 df0 ''title'' selectors0 None ''link'') =
     Inr [(''title'', [Some ''body one'', None, None]),
          (''link'', [Some ''/p/1'', Some ''http://other.org/2'', Some ''/p/3''])]"
proof -
  let ?links = "[Some ''/p/1'', Some ''http://other.org/2'', Some ''/p/3'']"
  have lc: "map_of df0 ''link'' = Some ?links" by (simp add: df0_def)
  have strings: "list_all (\<lambda>l. l \<noteq> None) ?links" by simp
  have frame: "list_all (\<lambda>(key, col). length col = 3) df0" by (simp add: df0_def)
  obtain df' ev where
    en: "enrich_dataframe_column_from_pages net0 scraper0 2 df0 ''title'' selectors0 None ''link'' =
       (Inr df', ev)"
    and rows: "n_rows df' = 3"
    using enrichment_frame [OF lc strings frame, of net0 scraper0 2 "''title''" selectors0 None]
    by blast
  have "fst (enrich_dataframe_column_from_pages net0 scraper0 2 df0 ''title'' selectors0 None ''link'') =
     Inr [(''title'', [Some ''body one'', None, None]),
          (''link'', [Some ''/p/1'', Some ''http://other.org/2'', Some ''/p/3''])]"
    by (simp add: enrich_df0) (simp add: df0_def)
  then show ?thesis using frame en rows by simp
qed

text \<open>
  C10 at a link base with trailing slashes, a relative and an absolute link, and the
  link column that \<open>page0\<close> gives: its second link node has no \<^verbatim>\<open>href\<close>.
\<close>

theorem link_resolution_witness:
  "requested (snd (get_value_from_product_page net0
       (init ''http://x/list'' 1 1 ''?page='' ''https://site.com//'' False) 0 ''/p/1'' selectors0 None)) =
     [''https://site.com/p/1''] \<and>
   requested (snd (get_value_from_product_page net0
       (init ''http://x/list'' 1 1 ''?page='' ''https://site.com//'' False) 0 ''http://other.org/2''
       selectors0 None)) = [''http://other.org/2''] \<and>
   extract_field page0 ''a.item[href]'' = [Some ''/p/1'', None] \<and>
   fst (enrich_dataframe_column_from_pages net0 scraper0 0
          [(''link'', extract_field page0 ''a.item[href]'')] ''content'' selectors0 None ''link'') =
     Inl AttributeError_startswith"
proof -
  let ?s = "init ''http://x/list'' 1 1 ''?page='' ''https://site.com//'' False"
  have ex: "extract_field page0 ''a.item[href]'' = [Some ''/p/1'', None]"
    by (simp add: extract_field_def page0_def startswith_def el_get_def)
  have r: "rstrip_slash ''https://site.com//'' = ''https://site.com''"
    by (simp add: rstrip_slash_def)
  have a: "map_of [(''link'', extract_field page0 ''a.item[href]'')] ''link'' =
        Some (extract_field page0 ''a.item[href]'') \<and>
      \<not> list_all (\<lambda>l. l \<noteq> None) (extract_field page0 ''a.item[href]'')"
    by (simp add: ex)
  have u1: "requested (snd (get_value_from_product_page net0 ?s 0 ''/p/1'' selectors0 None)) =
     [''https://site.com/p/1'']"
    using link_resolution [of net0 "''http://x/list''" 1 1 "''?page=''" "''https://site.com//''" False
        0 "''/p/1''" selectors0 None]
    by (simp add: r startswith_def)
  have u2: "requested (snd (get_value_from_product_page net0 ?s 0 ''http://other.org/2'' selectors0 None)) =
     [''http://other.org/2'']"
    using link_resolution [of net0 "''http://x/list''" 1 1 "''?page=''" "''https://site.com//''" False
        0 "''http://other.org/2''" selectors0 None]
    by (simp add: startswith_def)
  have e: "fst (enrich_dataframe_column_from_pages net0 scraper0 0
          [(''link'', extract_field page0 ''a.item[href]'')] ''content'' selectors0 None ''link'') =
     Inl AttributeError_startswith"
    using a link_resolution [where net = net0 and n = 0 and selectors = selectors0 and attr = None
        and df = "[(''link'', extract_field page0 ''a.item[href]'')]" and link_column = "''link''"
        and links = "extract_field page0 ''a.item[href]''" and s = scraper0
        and column_name = "''content''"]
    by blast
  show ?thesis using u1 u2 ex e by simp
qed

section \<open>The page fetcher\<close>






section \<open>The sinks\<close>

lemma digit_nth: "d < 10 \<Longrightarrow> ''0123456789'' ! d \<noteq> CHR ''/''"
proof -
  assume "d < 10"
  then have "d = 0 \<or> d = 1 \<or> d = 2 \<or> d = 3 \<or> d = 4 \<or> d = 5 \<or> d = 6 \<or> d = 7 \<or> d = 8 \<or> d = 9"
    by arith
  then show ?thesis by auto
qed

lemma str_nat_no_slash: "CHR ''/'' \<notin> set (str_nat n)"
proof (induction n rule: str_nat.induct)
  case (1 n)
  show ?case
  proof (cases "n < 10")
    case True
    then show ?thesis using digit_nth [of n] by (subst str_nat.simps) auto
  next
    case False
    have "n mod 10 < 10" by simp
    then have "''0123456789'' ! (n mod 10) \<noteq> CHR ''/''" by (rule digit_nth)
    then show ?thesis using False "1.IH" by (subst str_nat.simps) auto
  qed
qed

lemma pad2_no_slash: "CHR ''/'' \<notin> set (pad2 n)"
  by (simp add: pad2_def str_nat_no_slash)

lemma timestamp_no_slash: "CHR ''/'' \<notin> set (timestamp now)"
  by (simp add: timestamp_def str_nat_no_slash pad2_no_slash)

lemma str_nat_length_1: "n < 10 \<Longrightarrow> length (str_nat n) = 1"
  by (subst str_nat.simps) simp

lemma str_nat_length_step: "10 \<le> n \<Longrightarrow> length (str_nat n) = Suc (length (str_nat (n div 10)))"
  by (subst str_nat.simps) simp

lemma str_nat_length_2: "10 \<le> n \<Longrightarrow> n < 100 \<Longrightarrow> length (str_nat n) = 2"
  by (simp add: str_nat_length_step str_nat_length_1)

lemma str_nat_length_3:
  assumes "100 \<le> n" and "n < 1000"
  shows "length (str_nat n) = 3"
proof -
  have a: "10 \<le> n div 10" "n div 10 < 100" using assms by simp_all
  have "length (str_nat n) = Suc (length (str_nat (n div 10)))"
    using assms by (intro str_nat_length_step) simp
  also have "\<dots> = Suc 2" using str_nat_length_2 [OF a] by (simp only:)
  finally show ?thesis by simp
qed

lemma str_nat_length_4:
  assumes "1000 \<le> n" and "n < 10000"
  shows "length (str_nat n) = 4"
proof -
  have a: "100 \<le> n div 10" "n div 10 < 1000" using assms by simp_all
  have "length (str_nat n) = Suc (length (str_nat (n div 10)))"
    using assms by (intro str_nat_length_step) simp
  also have "\<dots> = Suc 3" using str_nat_length_3 [OF a] by (simp only:)
  finally show ?thesis by simp
qed

lemma pad2_length: "n < 100 \<Longrightarrow> length (pad2 n) = 2"
  by (cases "n < 10") (simp_all add: pad2_def str_nat_length_1 str_nat_length_2)

lemma dropWhile_skip:
  "\<forall>x \<in> set xs. P x \<Longrightarrow> \<not> P y \<Longrightarrow> dropWhile P (xs @ y # ys) = y # ys"
  by (induction xs) auto

lemma dirname_of_file:
  assumes "CHR ''/'' \<notin> set file"
  shows "dirname (d @ CHR ''/'' # file) =
     (if list_all (\<lambda>c. c = CHR ''/'') (d @ ''/'') then d @ ''/'' else rstrip_slash (d @ ''/''))"
proof -
  have "dropWhile (\<lambda>c. c \<noteq> CHR ''/'') (rev file @ CHR ''/'' # rev d) = CHR ''/'' # rev d"
    using assms by (intro dropWhile_skip) auto
  then have "rev (dropWhile (\<lambda>c. c \<noteq> CHR ''/'') (rev (d @ CHR ''/'' # file))) = d @ ''/''"
    by simp
  then show ?thesis by (simp add: dirname_def Let_def)
qed


lemma save_path_shape:
  "save_path saver name now =
     sink_dir saver @ ''/'' @ name @ ''_'' @ timestamp now @ ''.'' @ sink_ext saver"
  by (cases saver) (simp_all add: save_path_def sink_dir_def sink_ext_def)

lemma sink_ext_no_slash: "CHR ''/'' \<notin> set (sink_ext saver)"
  by (cases saver) (simp_all add: sink_ext_def)

lemma dirname_save_path:
  assumes "CHR ''/'' \<notin> set name"
  shows "dirname (save_path saver name now) = sink_dir saver"
proof -
  let ?file = "name @ ''_'' @ timestamp now @ ''.'' @ sink_ext saver"
  have ns: "CHR ''/'' \<notin> set ?file"
    using assms by (simp add: timestamp_no_slash sink_ext_no_slash)
  have "save_path saver name now = sink_dir saver @ CHR ''/'' # ?file"
    by (simp add: save_path_shape)
  then have "dirname (save_path saver name now) =
     (if list_all (\<lambda>c. c = CHR ''/'') (sink_dir saver @ ''/'') then sink_dir saver @ ''/''
      else rstrip_slash (sink_dir saver @ ''/''))"
    using dirname_of_file [OF ns, of "sink_dir saver"] by simp
  then show ?thesis
    by (cases saver) (simp_all add: sink_dir_def rstrip_slash_def)
qed

text \<open>
  Claim C9, as the code has it. Every file sink (CSV, JSON, XML) first creates the
  directory of its path with the missing directories above it, then writes the table
  to the path and prints it. The path is the fixed directory of the format, the
  name, an underscore, the time stamp and the extension; the time stamp is the date
  \<^verbatim>\<open>YYYYmmdd\<close>, an underscore, and the time \<^verbatim>\<open>HHMM\<close>: the seconds do not enter it, and
  it has 13 characters for a clock reading with a four-digit year. For a name without
  a slash the directory created is the fixed directory of the format.
\<close>

theorem sink_path:
  "save saver df name now =
     [MakeDirs (dirname (save_path saver name now)),
      WriteFile saver (save_path saver name now) df,
      PrintSaved saver (save_path saver name now)] \<and>
   save_path saver name now =
     sink_dir saver @ ''/'' @ name @ ''_'' @
       str_nat (dt_year now) @ pad2 (dt_month now) @ pad2 (dt_day now) @ ''_'' @
       pad2 (dt_hour now) @ pad2 (dt_minute now) @ ''.'' @ sink_ext saver \<and>
   save_path saver name (now\<lparr>dt_second := sec\<rparr>) = save_path saver name now \<and>
   (CHR ''/'' \<notin> set name \<longrightarrow> dirname (save_path saver name now) = sink_dir saver) \<and>
   (1000 \<le> dt_year now \<and> dt_year now < 10000 \<and> dt_month now < 100 \<and> dt_day now < 100 \<and>
    dt_hour now < 100 \<and> dt_minute now < 100 \<longrightarrow> length (timestamp now) = 13)"
proof (intro conjI impI)
  show "save saver df name now =
     [MakeDirs (dirname (save_path saver name now)),
      WriteFile saver (save_path saver name now) df,
      PrintSaved saver (save_path saver name now)]"
    by (simp add: save_def Let_def)
  show "save_path saver name now =
     sink_dir saver @ ''/'' @ name @ ''_'' @
       str_nat (dt_year now) @ pad2 (dt_month now) @ pad2 (dt_day now) @ ''_'' @
       pad2 (dt_hour now) @ pad2 (dt_minute now) @ ''.'' @ sink_ext saver"
    by (simp add: save_path_shape timestamp_def)
  show "save_path saver name (now\<lparr>dt_second := sec\<rparr>) = save_path saver name now"
    by (simp add: save_path_shape timestamp_def)
  show "CHR ''/'' \<notin> set name \<Longrightarrow> dirname (save_path saver name now) = sink_dir saver"
    by (rule dirname_save_path)
  show "1000 \<le> dt_year now \<and> dt_year now < 10000 \<and> dt_month now < 100 \<and> dt_day now < 100 \<and>
    dt_hour now < 100 \<and> dt_minute now < 100 \<Longrightarrow> length (timestamp now) = 13"
    by (simp add: timestamp_def str_nat_length_4 pad2_length)
qed

text \<open>C9 at the three sinks, for the name \<open>out\<close> at 2024-01-02 03:04:05.\<close>

theorem sink_path_witness:
  "save Csv df0 ''out'' now0 =
     [MakeDirs ''outputs/csv'', WriteFile Csv ''outputs/csv/out_20240102_0304.csv'' df0,
      PrintSaved Csv ''outputs/csv/out_20240102_0304.csv''] \<and>
   save Json df0 ''out'' now0 =
     [MakeDirs ''outputs/json'', WriteFile Json ''outputs/json/out_20240102_0304.json'' df0,
      PrintSaved Json ''outputs/json/out_20240102_0304.json''] \<and>
   save Xml df0 ''out'' now0 =
     [MakeDirs ''outputs/xml'', WriteFile Xml ''outputs/xml/out_20240102_0304.xml'' df0,
      PrintSaved Xml ''outputs/xml/out_20240102_0304.xml''] \<and>
   length (timestamp now0) = 13"
proof -
  have ns: "CHR ''/'' \<notin> set ''out''" by simp
  have ts: "timestamp now0 = ''20240102_0304''"
    by (simp add: timestamp_def now0_def pad2_def str_nat.simps)
  have v: "1000 \<le> dt_year now0 \<and> dt_year now0 < 10000 \<and> dt_month now0 < 100 \<and>
      dt_day now0 < 100 \<and> dt_hour now0 < 100 \<and> dt_minute now0 < 100"
    by (simp add: now0_def)
  have p: "save_path Csv ''out'' now0 = ''outputs/csv/out_20240102_0304.csv''"
      "save_path Json ''out'' now0 = ''outputs/json/out_20240102_0304.json''"
      "save_path Xml ''out'' now0 = ''outputs/xml/out_20240102_0304.xml''"
    by (simp_all add: save_path_def ts)
  have a: "save Csv df0 ''out'' now0 =
     [MakeDirs ''outputs/csv'', WriteFile Csv ''outputs/csv/out_20240102_0304.csv'' df0,
      PrintSaved Csv ''outputs/csv/out_20240102_0304.csv'']"
  proof -
    have e: "save Csv df0 ''out'' now0 =
       [MakeDirs (dirname (save_path Csv ''out'' now0)),
        WriteFile Csv (save_path Csv ''out'' now0) df0,
        PrintSaved Csv (save_path Csv ''out'' now0)]"
      using sink_path [of Csv df0 "''out''" now0] by blast
    have d: "dirname (save_path Csv ''out'' now0) = sink_dir Csv"
      using sink_path [of Csv df0 "''out''" now0] ns by blast
    show ?thesis using e d p by (simp add: sink_dir_def)
  qed
  have b: "save Json df0 ''out'' now0 =
     [MakeDirs ''outputs/json'', WriteFile Json ''outputs/json/out_20240102_0304.json'' df0,
      PrintSaved Json ''outputs/json/out_20240102_0304.json'']"
  proof -
    have e: "save Json df0 ''out'' now0 =
       [MakeDirs (dirname (save_path Json ''out'' now0)),
        WriteFile Json (save_path Json ''out'' now0) df0,
        PrintSaved Json (save_path Json ''out'' now0)]"
      using sink_path [of Json df0 "''out''" now0] by blast
    have d: "dirname (save_path Json ''out'' now0) = sink_dir Json"
      using sink_path [of Json df0 "''out''" now0] ns by blast
    show ?thesis using e d p by (simp add: sink_dir_def)
  qed
  have c: "save Xml df0 ''out'' now0 =
     [MakeDirs ''outputs/xml'', WriteFile Xml ''outputs/xml/out_20240102_0304.xml'' df0,
      PrintSaved Xml ''outputs/xml/out_20240102_0304.xml'']"
  proof -
    have e: "save Xml df0 ''out'' now0 =
       [MakeDirs (dirname (save_path Xml ''out'' now0)),
        WriteFile Xml (save_path Xml ''out'' now0) df0,
        PrintSaved Xml (save_path Xml ''out'' now0)]"
      using sink_path [of Xml df0 "''out''" now0] by blast
    have d: "dirname (save_path Xml ''out'' now0) = sink_dir Xml"
      using sink_path [of Xml df0 "''out''" now0] ns by blast
    show ?thesis using e d p by (simp add: sink_dir_def)
  qed
  have l: "length (timestamp now0) = 13"
    using sink_path [of Csv df0 "''out''" now0] v by blast
  show ?thesis using a b c l by simp
qed

text \<open>
  Against C9 as stated: the file name is not \<^verbatim>\<open>{name}_{YYYYMMDDHHmm}.{ext}\<close>; the code
  puts an underscore between the date and the time.
\<close>

theorem sink_path_not_as_stated:
  "save_path Csv ''out'' now0 = ''outputs/csv/out_20240102_0304.csv'' \<and>
   save_path Csv ''out'' now0 \<noteq> ''outputs/csv/out_202401020304.csv''"
  by (simp add: save_path_def timestamp_def now0_def pad2_def str_nat.simps)

section \<open>The entry point\<close>

lemma requested_listing_single:
  "\<not> pagination_enabled s \<Longrightarrow>
   requested (snd (scrape_listing_data net s n fs)) = [base_url s]"
  using requested_single_page [of net s fs n None "map (\<lambda>(key, selector). (key, [])) fs"]
  by (simp add: scrape_listing_data_def pages_def page_url_def del: scrape_pages.simps)

lemma requested_save: "requested (save saver df name now) = []"
  by (simp add: save_def Let_def)

lemma main_scrape_events:
  "\<exists>more. snd (main_scrape config net) =
     PrintScrapingListing #
       snd (scrape_listing_data net (main_scraper config) 0 (cfg_field_selectors config)) @ more"
  by (auto simp: main_scrape_def Let_def split: prod.splits sum.splits option.splits)

lemma main_scrape_strategy:
  "main_scrape (config\<lparr>cfg_save_strategy := st\<rparr>) net = main_scrape config net"
  by (auto simp: main_scrape_def main_scraper_def Let_def
      split: prod.splits sum.splits option.splits)

lemma get_saver_unsupported:
  "st \<notin> {''csv'', ''json'', ''xml''} \<Longrightarrow> get_saver st = Inl (ValueError_unsupported_strategy st)"
  by (simp add: get_saver_def)

lemma main_unsupported:
  assumes "cfg_save_strategy config \<notin> {''csv'', ''json'', ''xml''}"
  shows "main config net now =
     (case main_scrape config net of
        (Inl e, ev) \<Rightarrow> (Inl e, ev)
      | (Inr df, ev) \<Rightarrow> (Inl (ValueError_unsupported_strategy (cfg_save_strategy config)), ev))"
  using get_saver_unsupported [OF assms]
  by (simp add: main_def split: prod.splits sum.splits)

lemma main_requested:
  "requested (snd (main config net now)) = requested (snd (main_scrape config net))"
  by (auto simp: main_def requested_append requested_save split: prod.splits sum.splits)

text \<open>
  Claim C7, as the code has it. A run whose save strategy is none of \<^verbatim>\<open>csv\<close>,
  \<^verbatim>\<open>json\<close>, \<^verbatim>\<open>xml\<close> ends with an exception and writes nothing: its events are those
  of the scrape and the enrichment. The sink is looked up only after them. When they
  raise nothing, the exception is the \<^verbatim>\<open>ValueError\<close> of the unsupported strategy,
  raised after every request of the run. When the scrape or the enrichment raises,
  the run ends with that exception and the strategy is never looked up. Either way
  the run sends exactly the requests that the same run with the strategy \<^verbatim>\<open>csv\<close>
  sends, and without pagination the listing page is always among them.
\<close>

theorem unsupported_strategy_raised_after_scrape:
  assumes "cfg_save_strategy config \<notin> {''csv'', ''json'', ''xml''}"
  shows "(\<exists>e. fst (main config net now) = Inl e) \<and>
     snd (main config net now) = snd (main_scrape config net) \<and>
     (\<forall>df ev. main_scrape config net = (Inr df, ev) \<longrightarrow>
        main config net now =
          (Inl (ValueError_unsupported_strategy (cfg_save_strategy config)), ev)) \<and>
     (\<forall>e ev. main_scrape config net = (Inl e, ev) \<longrightarrow> main config net now = (Inl e, ev)) \<and>
     requested (snd (main config net now)) =
       requested (snd (main (config\<lparr>cfg_save_strategy := ''csv''\<rparr>) net now)) \<and>
     (cfg_pagination config = None \<or> cfg_pagination config = Some False \<longrightarrow>
        (\<exists>rest. requested (snd (main config net now)) =
           rstrip_slash (cfg_base_url config) # rest))"
proof (intro conjI allI impI)
  note m = main_unsupported [OF assms, of net now]
  show "\<exists>e. fst (main config net now) = Inl e"
    by (simp add: m split: prod.splits sum.splits)
  show "snd (main config net now) = snd (main_scrape config net)"
    by (simp add: m split: prod.splits sum.splits)
  show "requested (snd (main config net now)) =
       requested (snd (main (config\<lparr>cfg_save_strategy := ''csv''\<rparr>) net now))"
    by (simp add: main_requested main_scrape_strategy)
  show "main config net now =
          (Inl (ValueError_unsupported_strategy (cfg_save_strategy config)), ev)"
    if "main_scrape config net = (Inr df, ev)" for df ev
    using that by (simp add: m)
  show "main config net now = (Inl e, ev)"
    if "main_scrape config net = (Inl e, ev)" for e ev
    using that by (simp add: m)
next
  assume np: "cfg_pagination config = None \<or> cfg_pagination config = Some False"
  let ?s = "main_scraper config"
  have p: "\<not> pagination_enabled ?s"
    using np by (auto simp: main_scraper_def init_def)
  have b: "base_url ?s = rstrip_slash (cfg_base_url config)"
    by (simp add: main_scraper_def init_def)
  obtain more where
    ev: "snd (main_scrape config net) =
      PrintScrapingListing # snd (scrape_listing_data net ?s 0 (cfg_field_selectors config)) @ more"
    using main_scrape_events by blast
  have "requested (snd (main_scrape config net)) = base_url ?s # requested more"
    using requested_listing_single [OF p, of net 0 "cfg_field_selectors config"]
    by (simp add: ev requested_append)
  then show "\<exists>rest. requested (snd (main config net now)) =
           rstrip_slash (cfg_base_url config) # rest"
    by (simp add: main_requested b)
qed


lemma listing_config0:
  "scrape_listing_data net1 (main_scraper config0) 0 [(''title'', ''h2.title'')] =
     (Inr [(''title'', [Some ''First'', Some ''Second''])],
      [PrintRequesting ''http://x/list'',
       HttpGet ''http://x/list'' [(''User-Agent'', user_agent)], Sleep 1])"
  by (simp add: scrape_listing_data_def main_scraper_def config0_def init_def rstrip_slash_def
      pages_def page_url_def request_page_def net1_def raises_for_status_def scrape_page_def
      raw_data_def extract_field_def startswith_def page0_def py_min_def)

lemma main_scrape_config0:
  "main_scrape config0 net1 =
     (Inr [(''title'', [Some ''First'', Some ''Second''])],
      [PrintScrapingListing, PrintRequesting ''http://x/list'',
       HttpGet ''http://x/list'' [(''User-Agent'', user_agent)], Sleep 1, PrintExtracted 2])"
proof -
  have f: "cfg_field_selectors config0 = [(''title'', ''h2.title'')]" "cfg_enrich config0 = None"
    by (simp_all add: config0_def)
  show ?thesis
    by (simp add: main_scrape_def f listing_config0 create_dataframe_def n_rows_def)
qed

lemma main_scrape_config0_enrich:
  "main_scrape (config0\<lparr>cfg_enrich := Some True, cfg_enrich_selectors := Some selectors0\<rparr>) net1 =
     (Inl (KeyError ''link''),
      [PrintScrapingListing, PrintRequesting ''http://x/list'',
       HttpGet ''http://x/list'' [(''User-Agent'', user_agent)], Sleep 1, PrintEnriching])"
proof -
  let ?c = "config0\<lparr>cfg_enrich := Some True, cfg_enrich_selectors := Some selectors0\<rparr>"
  have f: "cfg_field_selectors ?c = [(''title'', ''h2.title'')]" "cfg_enrich ?c = Some True"
      "cfg_enrich_selectors ?c = Some selectors0" "cfg_enrich_column ?c = None"
    by (simp_all add: config0_def)
  have s: "main_scraper ?c = main_scraper config0"
    by (simp add: main_scraper_def config0_def)
  show ?thesis
    by (simp add: main_scrape_def f s listing_config0 create_dataframe_def
        enrich_dataframe_column_from_pages_def)
qed

text \<open>
  C7 at \<open>config0\<close>: the page is requested, then the strategy is refused; and at
  \<open>config0\<close> with the enrichment on: the table has no column \<^verbatim>\<open>link\<close>, the
  enrichment raises \<^verbatim>\<open>KeyError\<close> and the strategy is not looked up.
\<close>

theorem unsupported_strategy_raised_after_scrape_witness:
  "cfg_save_strategy config0 \<notin> {''csv'', ''json'', ''xml''} \<and>
   main config0 net1 now0 =
     (Inl (ValueError_unsupported_strategy ''sqlite''),
      [PrintScrapingListing, PrintRequesting ''http://x/list'',
       HttpGet ''http://x/list'' [(''User-Agent'', user_agent)], Sleep 1, PrintExtracted 2]) \<and>
   main (config0\<lparr>cfg_enrich := Some True, cfg_enrich_selectors := Some selectors0\<rparr>) net1 now0 =
     (Inl (KeyError ''link''),
      [PrintScrapingListing, PrintRequesting ''http://x/list'',
       HttpGet ''http://x/list'' [(''User-Agent'', user_agent)], Sleep 1, PrintEnriching])"
proof -
  let ?c = "config0\<lparr>cfg_enrich := Some True, cfg_enrich_selectors := Some selectors0\<rparr>"
  have h: "cfg_save_strategy config0 \<notin> {''csv'', ''json'', ''xml''}"
    by (simp add: config0_def)
  have h2: "cfg_save_strategy ?c \<notin> {''csv'', ''json'', ''xml''}"
    by (simp add: config0_def)
  have st: "cfg_save_strategy config0 = ''sqlite''" by (simp add: config0_def)
  have a: "main config0 net1 now0 =
     (Inl (ValueError_unsupported_strategy (cfg_save_strategy config0)),
      [PrintScrapingListing, PrintRequesting ''http://x/list'',
       HttpGet ''http://x/list'' [(''User-Agent'', user_agent)], Sleep 1, PrintExtracted 2])"
    using unsupported_strategy_raised_after_scrape [OF h, of net1 now0] main_scrape_config0
    by blast
  have b: "main ?c net1 now0 =
     (Inl (KeyError ''link''),
      [PrintScrapingListing, PrintRequesting ''http://x/list'',
       HttpGet ''http://x/list'' [(''User-Agent'', user_agent)], Sleep 1, PrintEnriching])"
    using unsupported_strategy_raised_after_scrape [OF h2, of net1 now0]
      main_scrape_config0_enrich
    by blast
  show ?thesis using h st a b by simp
qed

text \<open>
  Against C7 as stated: at \<open>config0\<close> the listing page has been requested when the
  unsupported strategy is reported.
\<close>

theorem unsupported_strategy_not_before_network:
  "fst (main config0 net1 now0) = Inl (ValueError_unsupported_strategy ''sqlite'') \<and>
   requested (snd (main config0 net1 now0)) = [''http://x/list'']"
proof -
  have st: "cfg_save_strategy config0 = ''sqlite''" by (simp add: config0_def)
  show ?thesis by (simp add: main_def main_scrape_config0 get_saver_def st)
qed

section \<open>The empty selector map\<close>

lemma scrape_page_empty_selectors:
  "scrape_page [] soup page_num field_data = (Inl ValueError_min_empty, [])"
  by (simp add: scrape_page_def raw_data_def py_min_def)

text \<open>
  Claim C6 fails on the code. With an empty selector map, the first page that is
  fetched makes \<^verbatim>\<open>min\<close> raise \<^verbatim>\<open>ValueError\<close>: the scrape of \<open>config0\<close>'s scraper
  at \<open>net1\<close> requests the listing page and ends with the exception.
\<close>

theorem empty_selector_map_raises:
  "scrape_listing_data net1 (main_scraper config0) 0 [] =
     (Inl ValueError_min_empty,
      [PrintRequesting ''http://x/list'',
       HttpGet ''http://x/list'' [(''User-Agent'', user_agent)], Sleep 1])"
  by (simp add: scrape_listing_data_def main_scraper_def config0_def init_def rstrip_slash_def
      pages_def page_url_def request_page_def net1_def raises_for_status_def
      scrape_page_empty_selectors)

section \<open>Strings\<close>

lemma startswith_prefix: "startswith s p = prefix p s"
  by (auto simp: startswith_def prefix_def) (metis append_eq_conv_conj)

lemma contains_sublist: "contains s sub = sublist sub s"
  by (induction s) (auto simp: startswith_prefix sublist_Cons_right)

section \<open>Row alignment of the listing scrape\<close>

lemma scrape_page_aligned:
  assumes d: "distinct (map fst fs)"
    and k: "map fst fd = map fst fs"
    and al: "list_all (\<lambda>(key, col). length col = N) fd"
    and res: "scrape_page fs soup page_num fd = (Inr fd', ev)"
  shows "map fst fd' = map fst fs \<and> (\<exists>m. list_all (\<lambda>(key, col). length col = N + m) fd')"
proof -
  define raw where "raw = map (\<lambda>(key, selector). (key, extract_field soup selector)) fs"
  have raw: "raw_data soup fs = raw" using d by (simp add: raw_data_distinct raw_def)
  obtain m where pm: "py_min (map (\<lambda>(key, lst). length lst) raw) = Inr m"
    using res by (auto simp: scrape_page_def raw Let_def split: sum.splits)
  have ne: "map (\<lambda>(key, lst). length lst) raw \<noteq> []"
    using pm by (auto simp: py_min_empty)
  have m: "m = Min (set (map (\<lambda>(key, lst). length lst) raw))"
    using pm py_min_nonempty [OF ne] by simp
  have found: "list_all (\<lambda>(key, acc). map_of raw key \<noteq> None) fd"
    unfolding raw_def using d k by (rule keys_all_found)
  have ext: "extend_all raw m fd =
      Inr (map (\<lambda>(key, acc). (key, acc @ take m (the (map_of raw key)))) fd)"
    using found by (rule extend_all_total)
  have fd': "fd' = map (\<lambda>(key, acc). (key, acc @ take m (the (map_of raw key)))) fd"
    using res pm ext by (simp add: scrape_page_def raw)
  have keys: "map fst fd' = map fst fs"
    using k by (simp add: fd' case_prod_unfold comp_def)
  have len: "length fd = length fs" using k by (metis length_map)
  have "\<forall>i < length fd. length (snd (fd' ! i)) = N + m"
  proof (intro allI impI)
    fix i assume i: "i < length fd"
    then have i': "i < length fs" using len by simp
    have l: "map_of raw (fst (fd ! i)) = Some (extract_field soup (snd (fs ! i)))"
      unfolding raw_def using d k i' by (rule keys_lookup_nth)
    have "length (extract_field soup (snd (fs ! i))) \<in> set (map (\<lambda>(key, lst). length lst) raw)"
      using i' by (force simp: raw_def case_prod_unfold comp_def)
    then have le: "m \<le> length (extract_field soup (snd (fs ! i)))"
      unfolding m by (intro Min_le) simp_all
    have "length (snd (fd ! i)) = N"
      using al i by (auto simp: list_all_length case_prod_unfold)
    then show "length (snd (fd' ! i)) = N + m"
      using i l le by (simp add: fd' case_prod_unfold)
  qed
  then have "list_all (\<lambda>(key, col). length col = N + m) fd'"
    by (simp add: list_all_length case_prod_unfold fd')
  then show ?thesis using keys by blast
qed

lemma scrape_pages_aligned:
  assumes d: "distinct (map fst fs)"
  shows "map fst fd = map fst fs \<Longrightarrow> list_all (\<lambda>(key, col). length col = N) fd \<Longrightarrow>
    scrape_pages net s fs n ps fd = (Inr data, ev) \<Longrightarrow>
    map fst data = map fst fs \<and> (\<exists>M. list_all (\<lambda>(key, col). length col = M) data)"
proof (induction ps arbitrary: n fd N ev)
  case Nil
  then show ?case by auto
next
  case (Cons p ps)
  obtain r ev0 where rp: "request_page net s n (page_url s p) = (r, ev0)"
    by (cases "request_page net s n (page_url s p)")
  show ?case
  proof (cases r)
    case None
    obtain ev2 where "scrape_pages net s fs (Suc n) ps fd = (Inr data, ev2)"
      using Cons.prems(3) rp None by (auto split: prod.splits)
    then show ?thesis using Cons.IH [OF Cons.prems(1) Cons.prems(2)] by blast
  next
    case (Some soup)
    obtain r1 ev1 where sp: "scrape_page fs soup p fd = (r1, ev1)"
      by (cases "scrape_page fs soup p fd")
    obtain fd' where r1: "r1 = Inr fd'"
      using Cons.prems(3) rp Some sp by (cases r1) auto
    obtain ev2 where rec: "scrape_pages net s fs (Suc n) ps fd' = (Inr data, ev2)"
      using Cons.prems(3) rp Some sp r1 by (auto split: prod.splits)
    obtain m where k': "map fst fd' = map fst fs"
      and al': "list_all (\<lambda>(key, col). length col = N + m) fd'"
      using scrape_page_aligned [OF d Cons.prems(1) Cons.prems(2)] sp r1 by blast
    show ?thesis using Cons.IH [OF k' al' rec] by blast
  qed
qed

lemma create_dataframe_aligned:
  "list_all (\<lambda>(key, col). length col = M) data \<Longrightarrow> create_dataframe data = Inr data"
  by (cases data) (auto simp: create_dataframe_def list_all_iff)

text \<open>
  Extra X1. The record set that the listing scrape returns for a selector
  dictionary has exactly the keys of the selectors, in their order, and all its
  columns have the same number of rows; so \<^verbatim>\<open>create_dataframe\<close> accepts it.
\<close>

theorem listing_rows_aligned:
  assumes "distinct (map fst fs)"
    and "scrape_listing_data net s n fs = (Inr data, ev)"
  shows "map fst data = map fst fs \<and>
    (\<exists>M. list_all (\<lambda>(key, col). length col = M) data) \<and>
    create_dataframe data = Inr data"
proof -
  let ?fd = "map (\<lambda>(key, selector). (key, [])) fs"
  have k: "map fst ?fd = map fst fs" by (simp add: case_prod_unfold comp_def)
  have al: "list_all (\<lambda>(key, col). length col = 0) ?fd"
    by (simp add: list_all_iff case_prod_unfold)
  have r: "scrape_pages net s fs n (pages s) ?fd = (Inr data, ev)"
    using assms(2) by (simp add: scrape_listing_data_def)
  have a: "map fst data = map fst fs \<and> (\<exists>M. list_all (\<lambda>(key, col). length col = M) data)"
    using scrape_pages_aligned [OF assms(1) k al r] .
  then show ?thesis using create_dataframe_aligned by blast
qed


lemma listing_config1:
  "scrape_listing_data (\<lambda>n url. Response 200 page3) (main_scraper config1) 0
       [(''title'', ''h2.title''), (''link'', ''a.item[href]'')] =
     (Inr [(''title'', [Some ''T1'', Some ''T2'', Some ''T3'']),
           (''link'', [Some ''/a/1'', Some ''/a/2'', Some ''/a/3''])],
      [PrintRequesting ''http://x/list'',
       HttpGet ''http://x/list'' [(''User-Agent'', user_agent)], Sleep 1])"
  by (simp add: scrape_listing_data_def main_scraper_def config1_def init_def rstrip_slash_def
      pages_def page_url_def request_page_def raises_for_status_def scrape_page_def
      raw_data_def extract_field_def startswith_def page3_def py_min_def el_get_def)

text \<open>X1 at the end-to-end scenario: three aligned rows, the links verbatim.\<close>

theorem listing_rows_aligned_witness:
  "distinct (map fst [(''title'', ''h2.title''), (''link'', ''a.item[href]'')]) \<and>
   fst (scrape_listing_data (\<lambda>n url. Response 200 page3) (main_scraper config1) 0
       [(''title'', ''h2.title''), (''link'', ''a.item[href]'')]) =
     Inr [(''title'', [Some ''T1'', Some ''T2'', Some ''T3'']),
          (''link'', [Some ''/a/1'', Some ''/a/2'', Some ''/a/3''])] \<and>
   create_dataframe [(''title'', [Some ''T1'', Some ''T2'', Some ''T3'']),
          (''link'', [Some ''/a/1'', Some ''/a/2'', Some ''/a/3''])] =
     Inr [(''title'', [Some ''T1'', Some ''T2'', Some ''T3'']),
          (''link'', [Some ''/a/1'', Some ''/a/2'', Some ''/a/3''])]"
proof -
  have d: "distinct (map fst [(''title'', ''h2.title''), (''link'', ''a.item[href]'')])" by simp
  show ?thesis
    using listing_rows_aligned [OF d listing_config1] listing_config1 d by simp
qed

text \<open>
  Extra X2. The end-to-end scenario of the specification: the run requests the one
  listing page, and the CSV sink receives a record set of three rows whose link
  column holds the three \<^verbatim>\<open>href\<close> values verbatim.
\<close>

theorem end_to_end_scenario:
  "main config1 (\<lambda>n url. Response 200 page3) now0 =
     (Inr (),
      [PrintScrapingListing, PrintRequesting ''http://x/list'',
       HttpGet ''http://x/list'' [(''User-Agent'', user_agent)], Sleep 1, PrintExtracted 3,
       MakeDirs ''outputs/csv'',
       WriteFile Csv ''outputs/csv/out_20240102_0304.csv''
         [(''title'', [Some ''T1'', Some ''T2'', Some ''T3'']),
          (''link'', [Some ''/a/1'', Some ''/a/2'', Some ''/a/3''])],
       PrintSaved Csv ''outputs/csv/out_20240102_0304.csv''])"
proof -
  have f: "cfg_field_selectors config1 = [(''title'', ''h2.title''), (''link'', ''a.item[href]'')]"
      "cfg_enrich config1 = None" "cfg_save_strategy config1 = ''csv''"
      "cfg_output_name config1 = ''out''"
    by (simp_all add: config1_def)
  have ms: "main_scrape config1 (\<lambda>n url. Response 200 page3) =
     (Inr [(''title'', [Some ''T1'', Some ''T2'', Some ''T3'']),
           (''link'', [Some ''/a/1'', Some ''/a/2'', Some ''/a/3''])],
      [PrintScrapingListing, PrintRequesting ''http://x/list'',
       HttpGet ''http://x/list'' [(''User-Agent'', user_agent)], Sleep 1, PrintExtracted 3])"
    by (simp add: main_scrape_def f listing_config1 create_dataframe_def n_rows_def)
  have p: "save_path Csv ''out'' now0 = ''outputs/csv/out_20240102_0304.csv''"
    by (simp add: save_path_def timestamp_def now0_def pad2_def str_nat.simps)
  have dn: "dirname ''outputs/csv/out_20240102_0304.csv'' = ''outputs/csv''"
    by (simp add: dirname_def rstrip_slash_def)
  show ?thesis
    by (simp add: main_def ms f get_saver_def save_def p dn Let_def)
qed

end
